theory Spec2Isabelle
  imports Complex_Main "HOL-Library.AList" "HOL-Library.Sublist"
begin

section \<open>Job Tracker\<close>

text \<open>
  The server keeps \<^verbatim>\<open>const jobs = new Map()\<close>, a process-wide registry from job id to
  job object. A JavaScript \<^verbatim>\<open>Map\<close> iterates in insertion order, \<^verbatim>\<open>set\<close> on a present
  key replaces the value in place and \<^verbatim>\<open>set\<close> on a new key appends: this is an
  association list under \<open>AList.update\<close> and \<open>map_of\<close>, and \<^verbatim>\<open>delete\<close> drops the pair.
  Every operation takes the registry and returns the new one. Timestamps are milliseconds
  since the epoch, as \<^verbatim>\<open>Date.now()\<close> gives them.
\<close>

record FileResult =
  fr_file :: string
  fr_status :: string
  fr_output :: "string option"
  fr_error :: "string option"

record Job =
  job_id :: string
  job_files :: "string list"
  job_status :: string
  job_progress :: nat
  job_total :: nat
  job_results :: "FileResult list"
  job_startTime :: int
  job_currentFile :: "string option"
  job_endTime :: "int option"

text \<open>
  The \<^verbatim>\<open>updates\<close> argument of \<^verbatim>\<open>updateJob\<close> is a partial object; the three call sites
  pass \<^verbatim>\<open>{currentFile}\<close>, \<^verbatim>\<open>{progress, results}\<close> and \<^verbatim>\<open>{status, endTime, results}\<close>.
  A field that is absent is \<open>None\<close>.
\<close>

record JobUpdates =
  upd_status :: "string option"
  upd_progress :: "nat option"
  upd_results :: "FileResult list option"
  upd_currentFile :: "string option"
  upd_endTime :: "int option"

type_synonym JobRegistry = "(string \<times> Job) list"

definition noUpdates :: JobUpdates where
  "noUpdates = \<lparr>upd_status = None, upd_progress = None, upd_results = None,
     upd_currentFile = None, upd_endTime = None\<rparr>"

definition digitChar :: "nat \<Rightarrow> char" where
  "digitChar d = char_of (48 + d)"

function showNat :: "nat \<Rightarrow> string" where
  "showNat n = (if n < 10 then [digitChar n] else showNat (n div 10) @ [digitChar (n mod 10)])"
  by pat_completeness auto
termination
  by (relation "measure (\<lambda>n. n)") auto

declare showNat.simps [simp del]

text \<open>
  \<^verbatim>\<open>createJob(files)\<close>: the id is \<^verbatim>\<open>`job-${Date.now()}-${Math.random()...}`\<close>; the clock
  reading \<open>now\<close>, the random suffix \<open>rnd\<close> and the start time are supplied by the
  environment.
\<close>

definition createJob :: "nat \<Rightarrow> string \<Rightarrow> int \<Rightarrow> string list \<Rightarrow> JobRegistry \<Rightarrow> string \<times> JobRegistry" where
  "createJob now rnd start files jobs =
     (let jobId = ''job-'' @ showNat now @ ''-'' @ rnd
      in (jobId,
          AList.update jobId
            \<lparr>job_id = jobId, job_files = files, job_status = ''in-progress'',
             job_progress = 0, job_total = length files, job_results = [],
             job_startTime = start, job_currentFile = None, job_endTime = None\<rparr>
            jobs))"

text \<open>\<^verbatim>\<open>Object.assign(job, updates)\<close>: every field present in the updates overwrites.\<close>

definition assignJob :: "Job \<Rightarrow> JobUpdates \<Rightarrow> Job" where
  "assignJob job u =
     job\<lparr>job_status := (case upd_status u of None \<Rightarrow> job_status job | Some s \<Rightarrow> s),
         job_progress := (case upd_progress u of None \<Rightarrow> job_progress job | Some p \<Rightarrow> p),
         job_results := (case upd_results u of None \<Rightarrow> job_results job | Some r \<Rightarrow> r),
         job_currentFile := (case upd_currentFile u of None \<Rightarrow> job_currentFile job | Some f \<Rightarrow> Some f),
         job_endTime := (case upd_endTime u of None \<Rightarrow> job_endTime job | Some t \<Rightarrow> Some t)\<rparr>"

text \<open>
  \<^verbatim>\<open>updateJob(jobId, updates)\<close>: \<^verbatim>\<open>const job = jobs.get(jobId); if (job) { ... }\<close>. A stored
  job is an object, hence truthy; a missing id gives \<^verbatim>\<open>undefined\<close> and the body is
  skipped.
\<close>

definition updateJob :: "string \<Rightarrow> JobUpdates \<Rightarrow> JobRegistry \<Rightarrow> JobRegistry" where
  "updateJob jobId updates jobs =
     (case map_of jobs jobId of
        None \<Rightarrow> jobs
      | Some job \<Rightarrow> AList.update jobId (assignJob job updates) jobs)"

definition getJob :: "string \<Rightarrow> JobRegistry \<Rightarrow> Job option" where
  "getJob jobId jobs = map_of jobs jobId"

text \<open>
  The retention sweep run by \<^verbatim>\<open>setInterval\<close>: every job whose start time is before
  \<^verbatim>\<open>Date.now() - 60 * 60 * 1000\<close> is deleted.
\<close>

definition evictOldJobs :: "int \<Rightarrow> JobRegistry \<Rightarrow> JobRegistry" where
  "evictOldJobs now jobs =
     (let oneHourAgo = now - 60 * 60 * 1000
      in filter (\<lambda>(jobId, job). \<not> job_startTime job < oneHourAgo) jobs)"

section \<open>Ingestion job driver\<close>

text \<open>
  \<^verbatim>\<open>processEmbeddings(jobId, files)\<close> walks the files in order. For each file it sets
  \<^verbatim>\<open>currentFile\<close>, writes a temporary script, spawns it as a child process inside
  \<^verbatim>\<open>try { await new Promise(...) } catch\<close>, pushes one entry onto \<^verbatim>\<open>results\<close> and reports
  progress. The child either closes with an exit code (stdout and stderr collected), or
  the awaited promise rejects, which happens when \<^verbatim>\<open>spawn\<close> throws inside the promise's
  executor, and the \<^verbatim>\<open>catch\<close> records the message.

  Three exceptions are caught by nothing and end the run where they occur, so that the
  final update never happens: \<^verbatim>\<open>fs.writeFileSync\<close> of the temporary script (outside the
  \<^verbatim>\<open>try\<close>), \<^verbatim>\<open>fs.unlinkSync\<close> inside the \<^verbatim>\<open>close\<close> handler, and the \<^verbatim>\<open>error\<close> event of the
  child, for which no listener is registered (a spawn that fails asynchronously, such as
  \<^verbatim>\<open>ENOENT\<close>). They are the run \<open>Escaped\<close>.
\<close>

datatype ChildOutcome = Exited int string string | Rejected string

datatype FileRun = Attempted ChildOutcome | Escaped

fun fileResult :: "string \<Rightarrow> ChildOutcome \<Rightarrow> FileResult" where
  "fileResult fileName (Exited code output err) =
     (if code = 0
      then \<lparr>fr_file = fileName, fr_status = ''completed'', fr_output = Some output, fr_error = None\<rparr>
      else \<lparr>fr_file = fileName, fr_status = ''failed'', fr_output = None,
            fr_error = Some (if err \<noteq> [] then err else output)\<rparr>)"
| "fileResult fileName (Rejected msg) =
     \<lparr>fr_file = fileName, fr_status = ''failed'', fr_output = None, fr_error = Some msg\<rparr>"

text \<open>
  The function is asynchronous: it is suspended while it awaits the child of a file, and
  the timer callbacks that fall due in that time run in between. The registry is shared
  with the retention sweep, so the sweep can run, once or several times, while a child is
  running; between the handler of \<^verbatim>\<open>close\<close>, the progress update, the next
  \<^verbatim>\<open>currentFile\<close> update and the next spawn nothing else runs. What happened for one file is
  therefore the file name, the clock readings of the sweeps that ran while its child was
  running, in order, and the way the child ended. Requests that create or read other jobs
  in the meantime do not touch this job and are left out.
\<close>

record FileStep =
  fs_file :: string
  fs_sweeps :: "int list"
  fs_run :: FileRun

definition runSweeps :: "int list \<Rightarrow> JobRegistry \<Rightarrow> JobRegistry" where
  "runSweeps ticks jobs = foldl (\<lambda>js now. evictOldJobs now js) jobs ticks"

fun processFiles :: "string \<Rightarrow> FileStep list \<Rightarrow> FileResult list \<Rightarrow> JobRegistry
    \<Rightarrow> bool \<times> FileResult list \<times> JobRegistry" where
  "processFiles jobId [] results jobs = (True, results, jobs)"
| "processFiles jobId (step # rest) results jobs =
     (let fileName = fs_file step;
          jobs1 = updateJob jobId (noUpdates\<lparr>upd_currentFile := Some fileName\<rparr>) jobs
      in case fs_run step of
           Escaped \<Rightarrow> (False, results, jobs1)
         | Attempted outcome \<Rightarrow>
             (let swept = runSweeps (fs_sweeps step) jobs1;
                  results' = results @ [fileResult fileName outcome];
                  jobs2 = updateJob jobId
                            (noUpdates\<lparr>upd_progress := Some (length results'),
                                       upd_results := Some results'\<rparr>) swept
              in processFiles jobId rest results' jobs2))"

text \<open>
  The first component tells whether the function ran to its end (\<open>True\<close>) or was left
  by an escaping exception (\<open>False\<close>); in the second case the registry returned is the one
  of the last update made.
\<close>

definition processEmbeddings :: "string \<Rightarrow> FileStep list \<Rightarrow> int \<Rightarrow> JobRegistry
    \<Rightarrow> bool \<times> JobRegistry" where
  "processEmbeddings jobId steps endTime jobs =
     (case processFiles jobId steps [] jobs of
        (False, results, jobs') \<Rightarrow> (False, jobs')
      | (True, results, jobs') \<Rightarrow>
          (True, updateJob jobId
                   (noUpdates\<lparr>upd_status := Some ''completed'', upd_endTime := Some endTime,
                              upd_results := Some results\<rparr>) jobs'))"




section \<open>Embedding scheduler: retry and backoff\<close>

text \<open>
  A test case is a JSON object of named fields; a field holds a string or, for
  \<^verbatim>\<open>linkedStories\<close>, possibly an array of strings. Scores, costs and vector components
  are JavaScript numbers; they are modelled as exact rationals, so that the arithmetic of
  the source is the arithmetic of the model without rounding.
\<close>

datatype FieldValue = Str string | Arr "string list"

type_synonym Testcase = "(string \<times> FieldValue) list"

record Metadata =
  md_model :: string
  md_cost :: rat
  md_tokens :: nat
  md_apiSource :: string
  md_createdAt :: int

record EmbeddingResult =
  er_testcase :: Testcase
  er_embedding :: "rat list option"
  er_error :: "string option"
  er_cost :: rat
  er_tokens :: nat
  er_metadata :: "Metadata option"

text \<open>
  What one call of the embedding provider did: it answered with a vector, a cost, a token
  count and a model name, or it failed with an error that may carry an HTTP status
  (\<^verbatim>\<open>error.status\<close>) and has a message. The provider is the environment: \<open>provider n\<close>
  is the outcome of attempt number \<open>n\<close>.
\<close>

datatype ApiOutcome = ApiOk "rat list" rat nat string | ApiError "nat option" string

text \<open>
  The loop \<^verbatim>\<open>for (let attempt = 1; attempt <= maxRetries; attempt++)\<close> of
  \<^verbatim>\<open>generateTestcaseEmbedding\<close> (Testleaf script). The \<^verbatim>\<open>catch\<close> stores the error and,
  when \<^verbatim>\<open>attempt < maxRetries\<close>, sleeps \<^verbatim>\<open>1000 * attempt\<close> milliseconds. The state carries
  \<^verbatim>\<open>lastError\<close> and the list of sleeps made so far.
\<close>

function testcaseAttempts :: "(nat \<Rightarrow> ApiOutcome) \<Rightarrow> nat \<Rightarrow> nat \<Rightarrow> string option \<Rightarrow> nat list
    \<Rightarrow> (rat list \<times> rat \<times> nat \<times> string) option \<times> string option \<times> nat list" where
  "testcaseAttempts provider maxRetries attempt lastError waits =
     (if attempt \<le> maxRetries then
        (case provider attempt of
           ApiOk v c t m \<Rightarrow> (Some (v, c, t, m), lastError, waits)
         | ApiError st msg \<Rightarrow>
             testcaseAttempts provider maxRetries (Suc attempt) (Some msg)
               (if attempt < maxRetries then waits @ [1000 * attempt] else waits))
      else (None, lastError, waits))"
  by pat_completeness auto
termination
  by (relation "measure (\<lambda>(provider, maxRetries, attempt, lastError, waits). Suc maxRetries - attempt)") auto

declare testcaseAttempts.simps [simp del]

text \<open>
  The result of the whole function with the sleeps it made. After the loop the source
  reads \<^verbatim>\<open>lastError.message\<close>; with \<^verbatim>\<open>maxRetries = 0\<close> no attempt was made,
  \<^verbatim>\<open>lastError\<close> is \<^verbatim>\<open>undefined\<close> and the read throws a \<^verbatim>\<open>TypeError\<close>, which rejects the
  promise (\<open>Inl\<close>).
\<close>

definition generateTestcaseEmbedding :: "int \<Rightarrow> Testcase \<Rightarrow> (nat \<Rightarrow> ApiOutcome) \<Rightarrow> nat
    \<Rightarrow> (string + EmbeddingResult) \<times> nat list" where
  "generateTestcaseEmbedding now testcase provider maxRetries =
     (case testcaseAttempts provider maxRetries 1 None [] of
        (Some (v, c, t, m), lastError, waits) \<Rightarrow>
          (Inr \<lparr>er_testcase = testcase, er_embedding = Some v, er_error = None, er_cost = c,
                er_tokens = t,
                er_metadata = Some \<lparr>md_model = m, md_cost = c, md_tokens = t,
                                    md_apiSource = ''testleaf'', md_createdAt = now\<rparr>\<rparr>, waits)
      | (None, Some msg, waits) \<Rightarrow>
          (Inr \<lparr>er_testcase = testcase, er_embedding = None, er_error = Some msg, er_cost = 0,
                er_tokens = 0, er_metadata = None\<rparr>, waits)
      | (None, None, waits) \<Rightarrow> (Inl ''TypeError'', waits))"





section \<open>Batched persistence writer\<close>

text \<open>
  JavaScript truthiness of \<^verbatim>\<open>item.error\<close>: \<^verbatim>\<open>undefined\<close> and the empty string are falsy.
\<close>

fun truthyError :: "string option \<Rightarrow> bool" where
  "truthyError None = False"
| "truthyError (Some s) = (s \<noteq> [])"

record StoredDocument =
  sd_fields :: Testcase
  sd_embedding :: "rat list option"
  sd_createdAt :: int
  sd_embeddingMetadata :: "Metadata option"

text \<open>
  What \<^verbatim>\<open>collection.insertMany(documents, {ordered: false})\<close> did, when it was called: it
  returned a result carrying \<^verbatim>\<open>insertedCount\<close>, or it threw.
\<close>

datatype BulkWrite = Acknowledged nat | BulkThrew string

record InsertCounts =
  inserted :: nat
  failed :: nat

definition testcaseDocument :: "int \<Rightarrow> EmbeddingResult \<Rightarrow> StoredDocument" where
  "testcaseDocument now item =
     \<lparr>sd_fields = er_testcase item, sd_embedding = er_embedding item, sd_createdAt = now,
      sd_embeddingMetadata = er_metadata item\<rparr>"

definition insertTestcasesBatch :: "int \<Rightarrow> BulkWrite \<Rightarrow> EmbeddingResult list \<Rightarrow> InsertCounts" where
  "insertTestcasesBatch now insertMany batch =
     (if length batch = 0 then \<lparr>inserted = 0, failed = 0\<rparr>
      else
        (let documents = map (testcaseDocument now) (filter (\<lambda>item. \<not> truthyError (er_error item)) batch)
         in if length documents = 0 then \<lparr>inserted = 0, failed = length batch\<rparr>
            else
              (case insertMany of
                 Acknowledged insertedCount \<Rightarrow>
                   \<lparr>inserted = insertedCount, failed = length batch - length documents\<rparr>
               | BulkThrew msg \<Rightarrow> \<lparr>inserted = 0, failed = length batch\<rparr>)))"

text \<open>
  \<^verbatim>\<open>insertBatch\<close> of the OpenAI script is the same function, except that each document's
  \<^verbatim>\<open>linkedStories\<close> is replaced by \<^verbatim>\<open>parseLinkedStories\<close> of it: a missing or empty value
  gives the empty array, an array is kept, a string is split at commas, each part trimmed
  and the empty parts dropped.
\<close>

definition isSpace :: "char \<Rightarrow> bool" where
  "isSpace c = (c \<in> set [CHR '' '', CHR 0x09, CHR 0x0A, CHR 0x0B, CHR 0x0C, CHR 0x0D])"

definition trim :: "string \<Rightarrow> string" where
  "trim s = rev (dropWhile isSpace (rev (dropWhile isSpace s)))"

fun splitOn :: "char \<Rightarrow> string \<Rightarrow> string \<Rightarrow> string list" where
  "splitOn sep cur [] = [rev cur]"
| "splitOn sep cur (c # cs) = (if c = sep then rev cur # splitOn sep [] cs else splitOn sep (c # cur) cs)"

fun parseLinkedStories :: "FieldValue option \<Rightarrow> string list" where
  "parseLinkedStories None = []"
| "parseLinkedStories (Some (Arr xs)) = xs"
| "parseLinkedStories (Some (Str s)) =
     (if s = [] then [] else filter (\<lambda>p. length p > 0) (map trim (splitOn CHR '','' [] s)))"

definition directDocument :: "int \<Rightarrow> EmbeddingResult \<Rightarrow> StoredDocument" where
  "directDocument now item =
     \<lparr>sd_fields = AList.update ''linkedStories''
                    (Arr (parseLinkedStories (map_of (er_testcase item) ''linkedStories'')))
                    (er_testcase item),
      sd_embedding = er_embedding item, sd_createdAt = now,
      sd_embeddingMetadata = er_metadata item\<rparr>"

definition insertBatch :: "int \<Rightarrow> BulkWrite \<Rightarrow> EmbeddingResult list \<Rightarrow> InsertCounts" where
  "insertBatch now insertMany batch =
     (if length batch = 0 then \<lparr>inserted = 0, failed = 0\<rparr>
      else
        (let documents = map (directDocument now) (filter (\<lambda>item. \<not> truthyError (er_error item)) batch)
         in if length documents = 0 then \<lparr>inserted = 0, failed = length batch\<rparr>
            else
              (case insertMany of
                 Acknowledged insertedCount \<Rightarrow>
                   \<lparr>inserted = insertedCount, failed = length batch - length documents\<rparr>
               | BulkThrew msg \<Rightarrow> \<lparr>inserted = 0, failed = length batch\<rparr>)))"

section \<open>Sample data\<close>

text \<open>Two scheduler results used to run the writer: one embedded, one failed.\<close>

definition sampleEmbedded :: EmbeddingResult where
  "sampleEmbedded =
     \<lparr>er_testcase = [(''id'', Str ''TC-1''), (''linkedStories'', Str ''US-1, US-2'')],
      er_embedding = Some [1 / 2, 1 / 4], er_error = None, er_cost = 0, er_tokens = 12,
      er_metadata = Some \<lparr>md_model = ''text-embedding-3-small'', md_cost = 0, md_tokens = 12,
                          md_apiSource = ''testleaf'', md_createdAt = 0\<rparr>\<rparr>"

definition sampleFailed :: EmbeddingResult where
  "sampleFailed =
     \<lparr>er_testcase = [(''id'', Str ''TC-2'')], er_embedding = None,
      er_error = Some ''timeout of 30000ms exceeded'', er_cost = 0, er_tokens = 0,
      er_metadata = None\<rparr>"

section \<open>Deduplicator\<close>

text \<open>
  Titles are JavaScript strings; they are modelled as ASCII strings, one \<open>char\<close> per
  code unit. \<^verbatim>\<open>toLowerCase\<close> maps \<open>A\<close>..\<open>Z\<close> to \<open>a\<close>..\<open>z\<close>, and the regular expression
  class \<^verbatim>\<open>\s\<close> is the white space of \<open>isSpace\<close>.
\<close>

definition toLowerChar :: "char \<Rightarrow> char" where
  "toLowerChar c =
     (let n = (of_char c :: nat) in if 65 \<le> n \<and> n \<le> 90 then char_of (n + 32) else c)"

definition toLowerCase :: "string \<Rightarrow> string" where
  "toLowerCase s = map toLowerChar s"

text \<open>
  \<^verbatim>\<open>text.split(/\s+/)\<close> cuts at every maximal run of white space. A run at the start or at
  the end leaves an empty string on that side, and the empty text gives one empty
  string, so the result is never the empty array. \<open>inRun\<close> tells that the previous
  character was white space; \<open>cur\<close> is the current word, reversed.
\<close>

fun splitWhitespaceFrom :: "bool \<Rightarrow> string \<Rightarrow> string \<Rightarrow> string list" where
  "splitWhitespaceFrom inRun cur [] = [rev cur]"
| "splitWhitespaceFrom inRun cur (c # cs) =
     (if isSpace c
      then (if inRun then splitWhitespaceFrom True cur cs
            else rev cur # splitWhitespaceFrom True [] cs)
      else splitWhitespaceFrom False (c # cur) cs)"

definition splitWhitespace :: "string \<Rightarrow> string list" where
  "splitWhitespace s = splitWhitespaceFrom False [] s"

text \<open>
  \<^verbatim>\<open>calculateTextSimilarity\<close>: the two word sets, the intersection as the words of the
  first set that the second has, the union as the set of both, and the quotient of the
  two sizes. A \<^verbatim>\<open>Set\<close> built from an array is the array without repetitions.
\<close>

definition calculateTextSimilarity :: "string \<Rightarrow> string \<Rightarrow> rat" where
  "calculateTextSimilarity text1 text2 =
     (let words1 = remdups (splitWhitespace (toLowerCase text1));
          words2 = remdups (splitWhitespace (toLowerCase text2));
          intersection = filter (\<lambda>x. x \<in> set words2) words1;
          union = remdups (words1 @ words2)
      in of_nat (length intersection) / of_nat (length union))"

text \<open>
  An element of the \<^verbatim>\<open>results\<close> array is an object whose \<^verbatim>\<open>id\<close> and \<^verbatim>\<open>title\<close>, when
  present, are strings, with further string fields.
\<close>

record SearchResult =
  sr_id :: "string option"
  sr_title :: "string option"
  sr_fields :: "(string \<times> string) list"

text \<open>
  An entry of the \<^verbatim>\<open>duplicates\<close> array: the result itself (\<^verbatim>\<open>...result\<close>), the id of the
  seen result it matched and the similarity (the source stores its \<^verbatim>\<open>toFixed(3)\<close>
  rendering; the model keeps the number).
\<close>

record DuplicateEntry =
  dup_result :: SearchResult
  dup_duplicateOf :: "string option"
  dup_similarity :: rat

record DedupState =
  ds_deduplicated :: "SearchResult list"
  ds_duplicates :: "DuplicateEntry list"
  ds_seenTitles :: "(string \<times> SearchResult) list"

text \<open>\<^verbatim>\<open>const title = result.title?.toLowerCase() || ''\<close>\<close>

definition titleOf :: "SearchResult \<Rightarrow> string" where
  "titleOf result = (case sr_title result of None \<Rightarrow> [] | Some t \<Rightarrow> toLowerCase t)"

text \<open>
  One turn of \<^verbatim>\<open>for (const result of results)\<close>. The inner loop walks \<^verbatim>\<open>seenTitles\<close> in
  insertion order and stops at the first entry whose similarity reaches the threshold.
\<close>

definition reachesThreshold :: "rat \<Rightarrow> string \<Rightarrow> string \<times> SearchResult \<Rightarrow> bool" where
  "reachesThreshold threshold title =
     (\<lambda>(seenTitle, seenResult). calculateTextSimilarity title seenTitle \<ge> threshold)"

definition dedupStep :: "rat \<Rightarrow> DedupState \<Rightarrow> SearchResult \<Rightarrow> DedupState" where
  "dedupStep threshold st result =
     (let title = titleOf result
      in case find (reachesThreshold threshold title) (ds_seenTitles st) of
           Some (seenTitle, seenResult) \<Rightarrow>
             st\<lparr>ds_duplicates := ds_duplicates st @
                   [\<lparr>dup_result = result, dup_duplicateOf = sr_id seenResult,
                     dup_similarity = calculateTextSimilarity title seenTitle\<rparr>]\<rparr>
         | None \<Rightarrow>
             st\<lparr>ds_deduplicated := ds_deduplicated st @ [result],
                ds_seenTitles := AList.update title result (ds_seenTitles st)\<rparr>)"

definition deduplicateLoop :: "rat \<Rightarrow> SearchResult list \<Rightarrow> DedupState" where
  "deduplicateLoop threshold results =
     foldl (dedupStep threshold)
       \<lparr>ds_deduplicated = [], ds_duplicates = [], ds_seenTitles = []\<rparr> results"

record DedupStats =
  originalCount :: nat
  deduplicatedCount :: nat
  duplicatesRemoved :: nat

record DedupResponse =
  dr_original :: "SearchResult list"
  dr_deduplicated :: "SearchResult list"
  dr_duplicates :: "DuplicateEntry list"
  dr_stats :: DedupStats

datatype 'a HttpResponse = Ok 'a | BadRequest string | ServerError string

text \<open>
  The handler of \<^verbatim>\<open>POST /api/search/deduplicate\<close>. The body's \<^verbatim>\<open>results\<close> is \<open>None\<close> when
  it is missing or not an array; \<^verbatim>\<open>threshold\<close> defaults to 0.85.
\<close>

definition deduplicate :: "SearchResult list option \<Rightarrow> rat option \<Rightarrow> DedupResponse HttpResponse" where
  "deduplicate results thresholdOpt =
     (case results of
        None \<Rightarrow> BadRequest ''Results array is required''
      | Some rs \<Rightarrow>
          (let threshold = (case thresholdOpt of None \<Rightarrow> 85 / 100 | Some t \<Rightarrow> t);
               st = deduplicateLoop threshold rs
           in Ok \<lparr>dr_original = rs, dr_deduplicated = ds_deduplicated st,
                  dr_duplicates = ds_duplicates st,
                  dr_stats = \<lparr>originalCount = length rs,
                              deduplicatedCount = length (ds_deduplicated st),
                              duplicatesRemoved = length (ds_duplicates st)\<rparr>\<rparr>))"

text \<open>
  Three search results for the Deduplicator: the second and the third have the same title
  up to case, and both share two of the three words of the first.
\<close>

definition sampleA :: SearchResult where
  "sampleA = \<lparr>sr_id = Some ''TC-1'', sr_title = Some ''reset password email'', sr_fields = []\<rparr>"

definition sampleB :: SearchResult where
  "sampleB = \<lparr>sr_id = Some ''TC-2'', sr_title = Some ''Reset Password'', sr_fields = []\<rparr>"

definition sampleC :: SearchResult where
  "sampleC = \<lparr>sr_id = Some ''TC-3'', sr_title = Some ''reset password'', sr_fields = []\<rparr>"

section \<open>Score normalization and fusion (rerank endpoint)\<close>

text \<open>
  A document as a search pipeline returns it: the store identifier
  (\<^verbatim>\<open>doc._id.toString()\<close>), the projected string fields and the method's raw score
  (\<^verbatim>\<open>bm25Score\<close> or \<^verbatim>\<open>vectorScore\<close>).
\<close>

record StoreDoc =
  sdoc_id :: string
  sdoc_fields :: "(string \<times> string) list"
  sdoc_score :: rat

text \<open>\<^verbatim>\<open>Math.min(...xs, d)\<close> and \<^verbatim>\<open>Math.max(...xs, d)\<close>.\<close>

definition mathMinWith :: "rat list \<Rightarrow> rat \<Rightarrow> rat" where
  "mathMinWith xs d = fold min xs d"

definition mathMaxWith :: "rat list \<Rightarrow> rat \<Rightarrow> rat" where
  "mathMaxWith xs d = fold max xs d"

definition normalizeBM25 :: "rat \<Rightarrow> rat \<Rightarrow> rat \<Rightarrow> rat" where
  "normalizeBM25 score minScore maxScore =
     (if maxScore = minScore then 1 else (score - minScore) / (maxScore - minScore))"

definition normalizeVector :: "rat \<Rightarrow> rat \<Rightarrow> rat \<Rightarrow> rat" where
  "normalizeVector score minScore maxScore =
     (if maxScore = minScore then 1 else (score - minScore) / (maxScore - minScore))"

text \<open>
  An entry of \<^verbatim>\<open>resultMap\<close>. A rank that is \<^verbatim>\<open>null\<close> or was never set is \<open>None\<close>.
\<close>

record RerankEntry =
  re_id :: string
  re_fields :: "(string \<times> string) list"
  re_bm25Score :: rat
  re_bm25Normalized :: rat
  re_bm25Rank :: "nat option"
  re_vectorScore :: rat
  re_vectorNormalized :: rat
  re_vectorRank :: "nat option"
  re_foundIn :: string

text \<open>
  \<^verbatim>\<open>bm25Results.forEach((doc, index) => resultMap.set(id, {...}))\<close>, from position \<open>index\<close>
  on.
\<close>

fun processBM25 :: "rat \<Rightarrow> rat \<Rightarrow> nat \<Rightarrow> StoreDoc list \<Rightarrow> (string \<times> RerankEntry) list
    \<Rightarrow> (string \<times> RerankEntry) list" where
  "processBM25 minBM25 maxBM25 index [] resultMap = resultMap"
| "processBM25 minBM25 maxBM25 index (doc # docs) resultMap =
     processBM25 minBM25 maxBM25 (Suc index) docs
       (AList.update (sdoc_id doc)
          \<lparr>re_id = sdoc_id doc, re_fields = sdoc_fields doc,
           re_bm25Score = sdoc_score doc,
           re_bm25Normalized = normalizeBM25 (sdoc_score doc) minBM25 maxBM25,
           re_bm25Rank = Some (index + 1),
           re_vectorScore = 0, re_vectorNormalized = 0, re_vectorRank = None,
           re_foundIn = ''bm25''\<rparr>
          resultMap)"

text \<open>
  \<^verbatim>\<open>vectorResults.forEach((doc, index) => ...)\<close>: an entry that is present is updated in
  place, otherwise a new one is appended; the new one has no \<^verbatim>\<open>bm25Rank\<close> property.
\<close>

fun processVector :: "rat \<Rightarrow> rat \<Rightarrow> nat \<Rightarrow> StoreDoc list \<Rightarrow> (string \<times> RerankEntry) list
    \<Rightarrow> (string \<times> RerankEntry) list" where
  "processVector minVector maxVector index [] resultMap = resultMap"
| "processVector minVector maxVector index (doc # docs) resultMap =
     processVector minVector maxVector (Suc index) docs
       (let normalizedScore = normalizeVector (sdoc_score doc) minVector maxVector
        in case map_of resultMap (sdoc_id doc) of
             Some existing \<Rightarrow>
               AList.update (sdoc_id doc)
                 (existing\<lparr>re_vectorScore := sdoc_score doc,
                           re_vectorNormalized := normalizedScore,
                           re_vectorRank := Some (index + 1),
                           re_foundIn := ''both''\<rparr>)
                 resultMap
           | None \<Rightarrow>
               AList.update (sdoc_id doc)
                 \<lparr>re_id = sdoc_id doc, re_fields = sdoc_fields doc,
                  re_bm25Score = 0, re_bm25Normalized = 0, re_bm25Rank = None,
                  re_vectorScore = sdoc_score doc, re_vectorNormalized = normalizedScore,
                  re_vectorRank = Some (index + 1), re_foundIn = ''vector''\<rparr>
                 resultMap)"

definition buildResultMap :: "StoreDoc list \<Rightarrow> StoreDoc list \<Rightarrow> (string \<times> RerankEntry) list" where
  "buildResultMap bm25Results vectorResults =
     (let bm25Scores = map sdoc_score bm25Results;
          vectorScores = map sdoc_score vectorResults;
          minBM25 = mathMinWith bm25Scores 0;
          maxBM25 = mathMaxWith bm25Scores 1;
          minVector = mathMinWith vectorScores 0;
          maxVector = mathMaxWith vectorScores 1
      in processVector minVector maxVector 0 vectorResults
           (processBM25 minBM25 maxBM25 0 bm25Results []))"

record FusedEntry =
  fe_entry :: RerankEntry
  fe_fusedScore :: rat

text \<open>
  The three fusion policies. \<^verbatim>\<open>doc.bm25Rank ? 1 / (k + doc.bm25Rank) : 0\<close> tests the
  truthiness of the rank: \<^verbatim>\<open>null\<close>, \<^verbatim>\<open>undefined\<close> and 0 are falsy.
\<close>

definition fuseRRF :: "RerankEntry \<Rightarrow> FusedEntry" where
  "fuseRRF doc =
     (let k = 60;
          bm25RRF = (case re_bm25Rank doc of None \<Rightarrow> 0
                     | Some r \<Rightarrow> if r = 0 then 0 else 1 / (k + of_nat r));
          vectorRRF = (case re_vectorRank doc of None \<Rightarrow> 0
                       | Some r \<Rightarrow> if r = 0 then 0 else 1 / (k + of_nat r))
      in \<lparr>fe_entry = doc, fe_fusedScore = bm25RRF + vectorRRF\<rparr>)"

definition fuseWeighted :: "rat \<Rightarrow> rat \<Rightarrow> RerankEntry \<Rightarrow> FusedEntry" where
  "fuseWeighted bm25Weight vectorWeight doc =
     \<lparr>fe_entry = doc,
      fe_fusedScore = re_bm25Normalized doc * bm25Weight + re_vectorNormalized doc * vectorWeight\<rparr>"

definition fuseReciprocal :: "rat \<Rightarrow> rat \<Rightarrow> RerankEntry \<Rightarrow> FusedEntry" where
  "fuseReciprocal bm25Weight vectorWeight doc =
     (let bm25Reciprocal = (case re_bm25Rank doc of None \<Rightarrow> 0
                            | Some r \<Rightarrow> if r = 0 then 0 else (1 / of_nat r) * bm25Weight);
          vectorReciprocal = (case re_vectorRank doc of None \<Rightarrow> 0
                              | Some r \<Rightarrow> if r = 0 then 0 else (1 / of_nat r) * vectorWeight)
      in \<lparr>fe_entry = doc, fe_fusedScore = bm25Reciprocal + vectorReciprocal\<rparr>)"

text \<open>
  \<^verbatim>\<open>fusedResults\<close> after \<^verbatim>\<open>fusedResults.sort((a, b) => b.fusedScore - a.fusedScore)\<close>; the
  sort of an array is stable. An unknown method name leaves the list empty.
\<close>

definition rerankFusion :: "string \<Rightarrow> rat \<Rightarrow> rat \<Rightarrow> StoreDoc list \<Rightarrow> StoreDoc list \<Rightarrow> FusedEntry list" where
  "rerankFusion fusionMethod bm25Weight vectorWeight bm25Results vectorResults =
     (let allResults = map snd (buildResultMap bm25Results vectorResults);
          fusedResults =
            (if fusionMethod = ''rrf'' then map fuseRRF allResults
             else if fusionMethod = ''weighted'' then map (fuseWeighted bm25Weight vectorWeight) allResults
             else if fusionMethod = ''reciprocal'' then map (fuseReciprocal bm25Weight vectorWeight) allResults
             else [])
      in sort_key (\<lambda>e. - fe_fusedScore e) fusedResults)"

text \<open>
  The specification's reading of reciprocal rank fusion, in its words: a candidate's
  rank in a method is its 1-based position in that method's result list, a method in
  which it is absent has no rank for it, and a method contributes \<open>1 / (60 + rank)\<close> or 0.
\<close>

fun rankFrom :: "nat \<Rightarrow> string list \<Rightarrow> string \<Rightarrow> nat option" where
  "rankFrom i [] x = None"
| "rankFrom i (y # ys) x = (if x = y then Some (Suc i) else rankFrom (Suc i) ys x)"

definition rankIn :: "string list \<Rightarrow> string \<Rightarrow> nat option" where
  "rankIn ids x = rankFrom 0 ids x"

fun rrfContribution :: "nat option \<Rightarrow> rat" where
  "rrfContribution None = 0"
| "rrfContribution (Some r) = 1 / (60 + of_nat r)"

text \<open>
  Candidate \<open>a\<close> outranks candidate \<open>b\<close> in a method when the method ranks \<open>a\<close> strictly
  before \<open>b\<close>; this includes the case that it ranks \<open>a\<close> and not \<open>b\<close>. A method that ranks
  neither contributes to neither and imposes nothing.
\<close>

fun outranks :: "nat option \<Rightarrow> nat option \<Rightarrow> bool" where
  "outranks ra None = True"
| "outranks None (Some rb) = False"
| "outranks (Some ra) (Some rb) = (ra < rb)"

text \<open>
  Two result lists for one query: the lexical method returned the documents \<open>a\<close> and
  \<open>b\<close>, the vector method \<open>b\<close> and \<open>c\<close>.
\<close>

definition sampleBm25 :: "StoreDoc list" where
  "sampleBm25 = [\<lparr>sdoc_id = ''a'', sdoc_fields = [(''title'', ''Login'')], sdoc_score = 7 / 2\<rparr>,
                 \<lparr>sdoc_id = ''b'', sdoc_fields = [(''title'', ''Logout'')], sdoc_score = 2\<rparr>]"

definition sampleVector :: "StoreDoc list" where
  "sampleVector = [\<lparr>sdoc_id = ''b'', sdoc_fields = [(''title'', ''Logout'')], sdoc_score = 9 / 10\<rparr>,
                   \<lparr>sdoc_id = ''c'', sdoc_fields = [(''title'', ''Reset'')], sdoc_score = 4 / 5\<rparr>]"

section \<open>Hybrid search endpoint\<close>

text \<open>
  \<^verbatim>\<open>POST /api/search/hybrid\<close>. The request carries the query, the limit, the filters, the
  two weights and the \<^verbatim>\<open>useUserStories\<close> flag. Everything the handler awaits is the
  environment: the connection, the two results of \<^verbatim>\<open>validateDbCollectionIndex\<close> (which
  catches every exception and returns \<^verbatim>\<open>{ok: true}\<close> or \<^verbatim>\<open>{ok: false, error}\<close>), the
  lexical search, the embedding call for the query and the vector search. An awaited call
  either returns or throws; a throw is caught by the handler's \<^verbatim>\<open>catch\<close> and answered
  with status 500.
\<close>

datatype Validation = Valid | Invalid string

datatype 'a Outcome = Returned 'a | Thrown string

record HybridRequest =
  hq_query :: string
  hq_limit :: nat
  hq_filters :: "(string \<times> string) list"
  hq_bm25Weight :: rat
  hq_vectorWeight :: rat
  hq_useUserStories :: bool

record HybridEnv =
  env_connect :: "unit Outcome"
  env_bm25Validation :: Validation
  env_vectorValidation :: Validation
  env_bm25Search :: "StoreDoc list Outcome"
  env_embedding :: "unit Outcome"
  env_vectorSearch :: "StoreDoc list Outcome"

record HybridEntry =
  he_id :: string
  he_fields :: "(string \<times> string) list"
  he_bm25Score :: rat
  he_bm25ScoreNormalized :: rat
  he_vectorScore :: rat
  he_vectorScoreNormalized :: rat
  he_hybridScore :: rat
  he_foundIn :: string

record HybridResponse =
  hr_searchType :: string
  hr_results :: "HybridEntry list"
  hr_count :: nat
  hr_bm25Skipped :: bool
  hr_foundInBoth :: nat
  hr_foundInBm25Only :: nat
  hr_foundInVectorOnly :: nat

text \<open>\<^verbatim>\<open>x || 1\<close> on a number: 0 is falsy.\<close>

definition orOne :: "rat \<Rightarrow> rat" where
  "orOne x = (if x = 0 then 1 else x)"

text \<open>\<^verbatim>\<open>bm25Results.forEach(result => resultMap.set(key, {...}))\<close>\<close>

fun hybridAddBm25 :: "rat \<Rightarrow> rat \<Rightarrow> rat \<Rightarrow> StoreDoc list \<Rightarrow> (string \<times> HybridEntry) list
    \<Rightarrow> (string \<times> HybridEntry) list" where
  "hybridAddBm25 bm25Min bm25Range bm25Weight [] resultMap = resultMap"
| "hybridAddBm25 bm25Min bm25Range bm25Weight (result # rest) resultMap =
     hybridAddBm25 bm25Min bm25Range bm25Weight rest
       (let normalizedScore = (sdoc_score result - bm25Min) / bm25Range
        in AList.update (sdoc_id result)
             \<lparr>he_id = sdoc_id result, he_fields = sdoc_fields result,
              he_bm25Score = sdoc_score result, he_bm25ScoreNormalized = normalizedScore,
              he_vectorScore = 0, he_vectorScoreNormalized = 0,
              he_hybridScore = normalizedScore * bm25Weight, he_foundIn = ''bm25''\<rparr>
             resultMap)"

text \<open>
  \<^verbatim>\<open>vectorResults.forEach(result => ...)\<close>: a present entry is merged, a new one is tagged
  \<^verbatim>\<open>'vector-only'\<close> with the unweighted normalized score when the lexical method was
  skipped, and \<^verbatim>\<open>'vector'\<close> with the weighted one otherwise.
\<close>

fun hybridMergeVector :: "bool \<Rightarrow> rat \<Rightarrow> rat \<Rightarrow> rat \<Rightarrow> StoreDoc list \<Rightarrow> (string \<times> HybridEntry) list
    \<Rightarrow> (string \<times> HybridEntry) list" where
  "hybridMergeVector skipBM25 vectorMin vectorRange vectorWeight [] resultMap = resultMap"
| "hybridMergeVector skipBM25 vectorMin vectorRange vectorWeight (result # rest) resultMap =
     hybridMergeVector skipBM25 vectorMin vectorRange vectorWeight rest
       (let normalizedScore = (sdoc_score result - vectorMin) / vectorRange
        in case map_of resultMap (sdoc_id result) of
             Some existing \<Rightarrow>
               AList.update (sdoc_id result)
                 (existing\<lparr>he_vectorScore := sdoc_score result,
                           he_vectorScoreNormalized := normalizedScore,
                           he_hybridScore := he_hybridScore existing + normalizedScore * vectorWeight,
                           he_foundIn := ''both''\<rparr>)
                 resultMap
           | None \<Rightarrow>
               AList.update (sdoc_id result)
                 \<lparr>he_id = sdoc_id result, he_fields = sdoc_fields result,
                  he_bm25Score = 0, he_bm25ScoreNormalized = 0,
                  he_vectorScore = sdoc_score result, he_vectorScoreNormalized = normalizedScore,
                  he_hybridScore = (if skipBM25 then normalizedScore else normalizedScore * vectorWeight),
                  he_foundIn = (if skipBM25 then ''vector-only'' else ''vector'')\<rparr>
                 resultMap)"

text \<open>
  Step 3 of the handler, "Normalize and combine scores", up to the sort by
  \<^verbatim>\<open>hybridScore\<close>, descending and stable.
\<close>

definition hybridCombine :: "bool \<Rightarrow> rat \<Rightarrow> rat \<Rightarrow> StoreDoc list \<Rightarrow> StoreDoc list \<Rightarrow> HybridEntry list" where
  "hybridCombine skipBM25 bm25Weight vectorWeight bm25Results vectorResults =
     (let bm25Scores = map sdoc_score bm25Results;
          bm25Max = (if length bm25Scores > 0 then mathMaxWith bm25Scores 1 else 1);
          bm25Min = (if length bm25Scores > 0 then mathMinWith bm25Scores 0 else 0);
          bm25Range = orOne (bm25Max - bm25Min);
          vectorScores = map sdoc_score vectorResults;
          vectorMax = mathMaxWith vectorScores 1;
          vectorMin = mathMinWith vectorScores 0;
          vectorRange = orOne (vectorMax - vectorMin);
          resultMap0 = (if \<not> skipBM25 then hybridAddBm25 bm25Min bm25Range bm25Weight bm25Results []
                        else []);
          resultMap = hybridMergeVector skipBM25 vectorMin vectorRange vectorWeight vectorResults resultMap0
      in sort_key (\<lambda>e. - he_hybridScore e) (map snd resultMap))"

text \<open>
  \<^verbatim>\<open>result[key] === value\<close> for a filter value that is a string: the properties the
  handler adds shadow the document's fields; only \<^verbatim>\<open>foundIn\<close> among them is a string.
\<close>

definition entryProperty :: "HybridEntry \<Rightarrow> string \<Rightarrow> string option" where
  "entryProperty e key =
     (if key = ''foundIn'' then Some (he_foundIn e)
      else if key \<in> set [''_id'', ''bm25Score'', ''bm25ScoreNormalized'', ''vectorScore'',
                          ''vectorScoreNormalized'', ''hybridScore'']
      then None
      else map_of (he_fields e) key)"

definition matchesFilters :: "(string \<times> string) list \<Rightarrow> HybridEntry \<Rightarrow> bool" where
  "matchesFilters filters e =
     list_all (\<lambda>(key, value). if value = [] then True else entryProperty e key = Some value) filters"

definition validationError :: "Validation \<Rightarrow> string" where
  "validationError v = (case v of Valid \<Rightarrow> [] | Invalid err \<Rightarrow> err)"

definition hybridSearch :: "HybridRequest \<Rightarrow> HybridEnv \<Rightarrow> HybridResponse HttpResponse" where
  "hybridSearch req env =
     (if hq_query req = [] then BadRequest ''Query is required''
      else case env_connect env of
        Thrown msg \<Rightarrow> ServerError msg
      | Returned u \<Rightarrow>
         (let skipBM25 = (hq_useUserStories req \<and> env_bm25Validation env \<noteq> Valid)
          in if \<not> skipBM25 \<and> env_bm25Validation env \<noteq> Valid
               then BadRequest (validationError (env_bm25Validation env))
             else if env_vectorValidation env \<noteq> Valid
               then BadRequest (validationError (env_vectorValidation env))
             else case (if \<not> skipBM25 then env_bm25Search env else Returned []) of
               Thrown msg \<Rightarrow> ServerError msg
             | Returned bm25Results \<Rightarrow>
                (case env_embedding env of
                   Thrown msg \<Rightarrow> ServerError msg
                 | Returned u' \<Rightarrow>
                    (case env_vectorSearch env of
                       Thrown msg \<Rightarrow> ServerError msg
                     | Returned vectorResults \<Rightarrow>
                        (let combinedResults =
                               hybridCombine skipBM25 (hq_bm25Weight req) (hq_vectorWeight req)
                                 bm25Results vectorResults;
                             filtered = (if length (hq_filters req) > 0
                                         then filter (matchesFilters (hq_filters req)) combinedResults
                                         else combinedResults);
                             finalResults = take (hq_limit req) filtered
                         in Ok \<lparr>hr_searchType = (if skipBM25 then ''vector-only'' else ''hybrid''),
                                hr_results = finalResults,
                                hr_count = length finalResults,
                                hr_bm25Skipped = skipBM25,
                                hr_foundInBoth = length (filter (\<lambda>r. he_foundIn r = ''both'') finalResults),
                                hr_foundInBm25Only = length (filter (\<lambda>r. he_foundIn r = ''bm25'') finalResults),
                                hr_foundInVectorOnly = length (filter (\<lambda>r. he_foundIn r = ''vector'') finalResults)\<rparr>)))))"

text \<open>
  Sample inputs: a list whose raw scores are all equal; a default request (test cases
  collection) and a user-stories request; a store whose lexical index is missing while
  its vector index exists.
\<close>

definition equalScoreDocs :: "StoreDoc list" where
  "equalScoreDocs = [\<lparr>sdoc_id = ''a'', sdoc_fields = [], sdoc_score = 1 / 2\<rparr>,
                     \<lparr>sdoc_id = ''b'', sdoc_fields = [], sdoc_score = 1 / 2\<rparr>]"

definition sampleRequest :: HybridRequest where
  "sampleRequest = \<lparr>hq_query = ''login'', hq_limit = 10, hq_filters = [],
                    hq_bm25Weight = 1 / 2, hq_vectorWeight = 1 / 2, hq_useUserStories = False\<rparr>"

definition lexicalIndexMissing :: HybridEnv where
  "lexicalIndexMissing =
     \<lparr>env_connect = Returned (),
      env_bm25Validation = Invalid ''Search index bm25_index not found for collection user_stories'',
      env_vectorValidation = Valid,
      env_bm25Search = Thrown ''index not found'',
      env_embedding = Returned (),
      env_vectorSearch = Returned sampleVector\<rparr>"

section \<open>Batch step of the scheduler and auxiliary notions\<close>





text \<open>
  What both endpoints do with a method's raw scores: the normalized score of a candidate
  lies in the unit interval, and it is either 0 with raw score 0 (the value both fields
  get for a candidate the method did not return) or the raw score of one of the method's
  results, shifted by the minimum of those scores and 0 and divided by the distance from
  there to the maximum of those scores and 1.
\<close>

definition anchoredNormalization :: "rat list \<Rightarrow> rat \<Rightarrow> rat \<Rightarrow> bool" where
  "anchoredNormalization scores raw normalized =
     (0 \<le> normalized \<and> normalized \<le> 1
      \<and> ((raw = 0 \<and> normalized = 0)
          \<or> (raw \<in> set scores
              \<and> normalized = (raw - mathMinWith scores 0)
                               / (mathMaxWith scores 1 - mathMinWith scores 0))))"



section \<open>Properties of the Job Tracker\<close>

text \<open>
  C10. Updating a job id that is not in the registry (for instance after the sweep has
  evicted it) is a silent no-op: the registry is returned unchanged, so no job is created
  and none is modified; the model has no error branch because the source has none; and a
  later lookup of the id still finds nothing.
\<close>

theorem updateJob_missing_noop:
  assumes "getJob jobId jobs = None"
  shows "updateJob jobId updates jobs = jobs \<and> getJob jobId (updateJob jobId updates jobs) = None"
  using assms by (simp add: updateJob_def getJob_def)

theorem updateJob_missing_noop_witness:
  "getJob ''job-1-a'' (evictOldJobs 7200001 (snd (createJob 1 ''a'' 1 [''f.json''] []))) = None
   \<and> updateJob ''job-1-a'' (noUpdates\<lparr>upd_status := Some ''completed''\<rparr>)
        (evictOldJobs 7200001 (snd (createJob 1 ''a'' 1 [''f.json''] [])))
       = evictOldJobs 7200001 (snd (createJob 1 ''a'' 1 [''f.json''] []))
   \<and> getJob ''job-1-a'' (snd (createJob 1 ''a'' 1 [''f.json''] [])) \<noteq> None"
proof -
  have h: "getJob ''job-1-a'' (evictOldJobs 7200001 (snd (createJob 1 ''a'' 1 [''f.json''] []))) = None"
    by (simp add: getJob_def evictOldJobs_def createJob_def Let_def)
  have g: "getJob ''job-1-a'' (snd (createJob 1 ''a'' 1 [''f.json''] [])) \<noteq> None"
    by code_simp
  show ?thesis
    using h g updateJob_missing_noop [OF h, of "noUpdates\<lparr>upd_status := Some ''completed''\<rparr>"] by simp
qed

section \<open>Properties of the ingestion job driver\<close>

lemma getJob_updateJob:
  "getJob j (updateJob k u jobs) =
     (if j = k then map_option (\<lambda>job. assignJob job u) (getJob k jobs) else getJob j jobs)"
  by (simp add: getJob_def updateJob_def update_conv' split: option.splits)

lemma getJob_createJob:
  "getJob (fst (createJob now rnd start files jobs)) (snd (createJob now rnd start files jobs)) =
     Some \<lparr>job_id = fst (createJob now rnd start files jobs), job_files = files, job_status = ''in-progress'',
             job_progress = 0, job_total = length files, job_results = [],
             job_startTime = start, job_currentFile = None, job_endTime = None\<rparr>"
  by (simp add: getJob_def createJob_def Let_def update_conv')







lemma updateJob_keys_distinct:
  "distinct (map fst jobs) \<Longrightarrow> distinct (map fst (updateJob jobId u jobs))"
  by (simp add: updateJob_def distinct_update split: option.splits)

lemma evictOldJobs_keys_distinct:
  "distinct (map fst jobs) \<Longrightarrow> distinct (map fst (evictOldJobs now jobs))"
  by (simp add: evictOldJobs_def distinct_map_filter)

lemma getJob_evict_from:
  assumes "distinct (map fst jobs)" and "getJob j (evictOldJobs now jobs) = Some v"
  shows "getJob j jobs = Some v"
proof -
  from assms(2) have "(j, v) \<in> set (evictOldJobs now jobs)"
    unfolding getJob_def by (rule map_of_SomeD)
  then have "(j, v) \<in> set jobs" by (simp add: evictOldJobs_def)
  with assms(1) show ?thesis unfolding getJob_def by (rule map_of_is_SomeI)
qed

lemma runSweeps_in_progress:
  assumes "distinct (map fst jobs)"
    and "\<forall>job. getJob jobId jobs = Some job \<longrightarrow> job_status job = ''in-progress''"
  shows "distinct (map fst (runSweeps ticks jobs))
       \<and> (\<forall>job. getJob jobId (runSweeps ticks jobs) = Some job \<longrightarrow> job_status job = ''in-progress'')"
  using assms unfolding runSweeps_def
proof (induction ticks arbitrary: jobs)
  case Nil
  then show ?case by simp
next
  case (Cons t ticks)
  have d: "distinct (map fst (evictOldJobs t jobs))"
    using Cons.prems(1) by (rule evictOldJobs_keys_distinct)
  have s: "\<forall>job. getJob jobId (evictOldJobs t jobs) = Some job \<longrightarrow> job_status job = ''in-progress''"
    using Cons.prems getJob_evict_from by blast
  from Cons.IH[OF d s] show ?case by simp
qed

lemma updateJob_in_progress:
  assumes "distinct (map fst jobs)"
    and "\<forall>job. getJob jobId jobs = Some job \<longrightarrow> job_status job = ''in-progress''"
    and "upd_status u = None"
  shows "distinct (map fst (updateJob jobId u jobs))
       \<and> (\<forall>job. getJob jobId (updateJob jobId u jobs) = Some job \<longrightarrow> job_status job = ''in-progress'')"
  using assms by (auto simp: updateJob_keys_distinct getJob_updateJob assignJob_def)

lemma processFiles_in_progress:
  assumes "distinct (map fst jobs)"
    and "\<forall>job. getJob jobId jobs = Some job \<longrightarrow> job_status job = ''in-progress''"
  shows "distinct (map fst (snd (snd (processFiles jobId steps rs jobs))))
       \<and> (\<forall>job. getJob jobId (snd (snd (processFiles jobId steps rs jobs))) = Some job
             \<longrightarrow> job_status job = ''in-progress'')"
  using assms
proof (induction steps arbitrary: rs jobs)
  case Nil
  then show ?case by simp
next
  case (Cons a steps)
  let ?u1 = "noUpdates\<lparr>upd_currentFile := Some (fs_file a)\<rparr>"
  let ?j1 = "updateJob jobId ?u1 jobs"
  have i1: "distinct (map fst ?j1)
       \<and> (\<forall>job. getJob jobId ?j1 = Some job \<longrightarrow> job_status job = ''in-progress'')"
    by (rule updateJob_in_progress[OF Cons.prems]) (simp add: noUpdates_def)
  show ?case
  proof (cases "fs_run a")
    case Escaped
    then show ?thesis using i1 by (simp add: Let_def)
  next
    case (Attempted c)
    let ?sw = "runSweeps (fs_sweeps a) ?j1"
    let ?rs' = "rs @ [fileResult (fs_file a) c]"
    let ?u2 = "noUpdates\<lparr>upd_progress := Some (length ?rs'), upd_results := Some ?rs'\<rparr>"
    let ?j2 = "updateJob jobId ?u2 ?sw"
    have i2: "distinct (map fst ?sw)
       \<and> (\<forall>job. getJob jobId ?sw = Some job \<longrightarrow> job_status job = ''in-progress'')"
      using i1 by (intro runSweeps_in_progress) simp_all
    have i3: "distinct (map fst ?j2)
       \<and> (\<forall>job. getJob jobId ?j2 = Some job \<longrightarrow> job_status job = ''in-progress'')"
      using i2 by (intro updateJob_in_progress) (simp_all add: noUpdates_def)
    from Cons.IH[of ?j2 ?rs'] i3 show ?thesis
      by (simp add: Attempted Let_def)
  qed
qed

text \<open>
  Whatever happens to the files and whenever the sweep runs, a job that is found in the
  registry after the run has one of the two status strings the driver writes.
\<close>

lemma job_status_in_progress_or_completed:
  assumes "distinct (map fst jobs0)"
    and "getJob (fst (createJob now rnd start (map fs_file steps) jobs0))
           (snd (processEmbeddings (fst (createJob now rnd start (map fs_file steps) jobs0)) steps endTime
                  (snd (createJob now rnd start (map fs_file steps) jobs0)))) = Some job"
  shows "job_status job = ''in-progress'' \<or> job_status job = ''completed''"
proof -
  define jobId where "jobId = fst (createJob now rnd start (map fs_file steps) jobs0)"
  define jobs1 where "jobs1 = snd (createJob now rnd start (map fs_file steps) jobs0)"
  have d1: "distinct (map fst jobs1)"
    using assms(1) by (simp add: jobs1_def createJob_def Let_def distinct_update)
  have s1: "\<forall>job. getJob jobId jobs1 = Some job \<longrightarrow> job_status job = ''in-progress''"
    unfolding jobId_def jobs1_def by (simp add: getJob_createJob)
  obtain fin res jobs' where pf: "processFiles jobId steps [] jobs1 = (fin, res, jobs')"
    by (cases "processFiles jobId steps [] jobs1")
  from processFiles_in_progress[OF d1 s1, of steps "[]"] pf
  have s': "\<forall>job. getJob jobId jobs' = Some job \<longrightarrow> job_status job = ''in-progress''"
    by simp
  have g: "getJob jobId (snd (processEmbeddings jobId steps endTime jobs1)) = Some job"
    using assms(2) by (simp add: jobId_def jobs1_def)
  show ?thesis
  proof (cases fin)
    case False
    with pf g s' show ?thesis by (simp add: processEmbeddings_def)
  next
    case True
    with pf g show ?thesis
      by (auto simp: processEmbeddings_def getJob_updateJob assignJob_def noUpdates_def)
  qed
qed




section \<open>Properties of the embedding scheduler\<close>

text \<open>
  When every attempt fails, \<^verbatim>\<open>generateTestcaseEmbedding\<close> makes \<open>maxRetries\<close> attempts,
  sleeps \<^verbatim>\<open>1000 * attempt\<close> after each attempt but the last, and returns a failed result
  for the item instead of throwing.
\<close>

lemma testcaseAttempts_all_fail:
  assumes "\<forall>n. \<exists>st msg. provider n = ApiError st msg"
  shows "testcaseAttempts provider maxRetries attempt lastError waits =
           (None,
            (if attempt \<le> maxRetries
             then Some (case provider maxRetries of ApiError st msg \<Rightarrow> msg | ApiOk v c t m \<Rightarrow> [])
             else lastError),
            waits @ map (\<lambda>k. 1000 * k) [attempt..<maxRetries])"
  using assms
proof (induction provider maxRetries attempt lastError waits rule: testcaseAttempts.induct)
  case (1 provider maxRetries attempt lastError waits)
  show ?case
  proof (cases "attempt \<le> maxRetries")
    case False
    then show ?thesis by (simp add: testcaseAttempts.simps)
  next
    case True
    from "1.prems" obtain st msg where p: "provider attempt = ApiError st msg" by blast
    note ih = "1.IH"[OF True p "1.prems"]
    show ?thesis
    proof (cases "attempt < maxRetries")
      case True
      then show ?thesis
        using ih \<open>attempt \<le> maxRetries\<close> p
        by (subst testcaseAttempts.simps) (simp add: upt_conv_Cons)
    next
      case False
      with \<open>attempt \<le> maxRetries\<close> have e: "attempt = maxRetries" by simp
      show ?thesis
        using ih p e
        by (subst testcaseAttempts.simps) simp
    qed
  qed
qed

lemma generateTestcaseEmbedding_all_fail:
  assumes "\<forall>n. \<exists>st msg. provider n = ApiError st msg" and "1 \<le> maxRetries"
  shows "\<exists>msg. generateTestcaseEmbedding now testcase provider maxRetries =
           (Inr \<lparr>er_testcase = testcase, er_embedding = None, er_error = Some msg, er_cost = 0,
                 er_tokens = 0, er_metadata = None\<rparr>,
            map (\<lambda>k. 1000 * k) [1..<maxRetries])"
  using assms(2)
  by (simp add: generateTestcaseEmbedding_def testcaseAttempts_all_fail[OF assms(1)])








section \<open>Properties of the batched persistence writer\<close>

text \<open>
  C4. For every group handed to the writer in one call, the reported insertion count
  plus the reported failure count is the size of the group, in both scripts: for the
  empty group, when every record is filtered as an error result, when the bulk write
  throws (the whole group is counted as failed), and when the bulk write returns. The
  last case takes \<^verbatim>\<open>result.insertedCount\<close> from the driver; an unordered \<^verbatim>\<open>insertMany\<close>
  that returns has inserted every document it was given (a rejected document makes it
  throw), which is the hypothesis.
\<close>

theorem insert_counts_cover_group:
  assumes "\<forall>n. insertMany = Acknowledged n \<longrightarrow>
             n = length (filter (\<lambda>item. \<not> truthyError (er_error item)) batch)"
  shows "inserted (insertTestcasesBatch now insertMany batch)
           + failed (insertTestcasesBatch now insertMany batch) = length batch
         \<and> inserted (insertBatch now insertMany batch)
           + failed (insertBatch now insertMany batch) = length batch"
proof -
  have le: "length (filter (\<lambda>item. \<not> truthyError (er_error item)) batch) \<le> length batch"
    by simp
  show ?thesis
  proof (cases insertMany)
    case (Acknowledged n)
    with assms have "n = length (filter (\<lambda>item. \<not> truthyError (er_error item)) batch)" by simp
    then show ?thesis
      using le by (simp add: insertTestcasesBatch_def insertBatch_def Let_def Acknowledged)
  next
    case (BulkThrew msg)
    then show ?thesis
      by (simp add: insertTestcasesBatch_def insertBatch_def Let_def)
  qed
qed

theorem insert_counts_cover_group_witness:
  "length (filter (\<lambda>item. \<not> truthyError (er_error item)) [sampleEmbedded, sampleFailed, sampleEmbedded]) = 2
   \<and> insertTestcasesBatch 0 (Acknowledged 2) [sampleEmbedded, sampleFailed, sampleEmbedded]
        = \<lparr>inserted = 2, failed = 1\<rparr>
   \<and> inserted (insertTestcasesBatch 0 (Acknowledged 2) [sampleEmbedded, sampleFailed, sampleEmbedded])
        + failed (insertTestcasesBatch 0 (Acknowledged 2) [sampleEmbedded, sampleFailed, sampleEmbedded]) = 3
   \<and> insertBatch 0 (BulkThrew ''E11000 duplicate key'') [sampleEmbedded, sampleFailed, sampleEmbedded]
        = \<lparr>inserted = 0, failed = 3\<rparr>
   \<and> insertBatch 0 (Acknowledged 0) [sampleFailed] = \<lparr>inserted = 0, failed = 1\<rparr>"
proof -
  let ?B = "[sampleEmbedded, sampleFailed, sampleEmbedded]"
  have n: "length (filter (\<lambda>item. \<not> truthyError (er_error item)) ?B) = 2"
    by (simp add: sampleEmbedded_def sampleFailed_def)
  have h: "\<forall>n. Acknowledged 2 = Acknowledged n \<longrightarrow>
             n = length (filter (\<lambda>item. \<not> truthyError (er_error item)) ?B)"
    using n by simp
  have a: "insertTestcasesBatch 0 (Acknowledged 2) ?B = \<lparr>inserted = 2, failed = 1\<rparr>"
    by (simp add: insertTestcasesBatch_def sampleEmbedded_def sampleFailed_def)
  have b: "insertBatch 0 (BulkThrew ''E11000 duplicate key'') ?B = \<lparr>inserted = 0, failed = 3\<rparr>"
    by (simp add: insertBatch_def sampleEmbedded_def sampleFailed_def)
  have c: "insertBatch 0 (Acknowledged 0) [sampleFailed] = \<lparr>inserted = 0, failed = 1\<rparr>"
    by (simp add: insertBatch_def sampleFailed_def)
  show ?thesis
    using n a b c insert_counts_cover_group [OF h, of 0] by simp
qed

text \<open>
  The sum is taken from the driver's count as it is: were the driver to acknowledge
  fewer documents than it was given, the two counts would not add up to the group.
\<close>

lemma insert_counts_rest_on_driver:
  "inserted (insertTestcasesBatch 0 (Acknowledged 1) [sampleEmbedded, sampleFailed, sampleEmbedded])
     + failed (insertTestcasesBatch 0 (Acknowledged 1) [sampleEmbedded, sampleFailed, sampleEmbedded]) = 2"
  by (simp add: insertTestcasesBatch_def sampleEmbedded_def sampleFailed_def)

lemma directDocument_sample:
  "sd_fields (directDocument 0 sampleEmbedded) = [(''id'', Str ''TC-1''), (''linkedStories'', Arr [''US-1'', ''US-2''])]"
  by (simp add: directDocument_def sampleEmbedded_def trim_def isSpace_def)

section \<open>Properties of the Deduplicator\<close>

text \<open>
  A title compared with itself has similarity 1: the word set is never empty, so the
  quotient is \<open>n / n\<close> with \<open>n > 0\<close>.
\<close>

lemma splitWhitespaceFrom_nonempty: "splitWhitespaceFrom b cur s \<noteq> []"
  by (induction s arbitrary: b cur) auto

lemma similarity_self: "calculateTextSimilarity t t = 1"
proof -
  let ?w = "remdups (splitWhitespace (toLowerCase t))"
  have ne: "?w \<noteq> []"
    by (simp add: splitWhitespace_def splitWhitespaceFrom_nonempty)
  have i: "filter (\<lambda>x. x \<in> set ?w) ?w = ?w"
    by (rule filter_True) simp
  have "length (remdups (?w @ ?w)) = card (set (?w @ ?w))"
    by (rule length_remdups_card_conv)
  also have "\<dots> = card (set ?w)" by simp
  also have "\<dots> = length ?w" by (simp add: length_remdups_card_conv)
  finally have u: "length (remdups (?w @ ?w)) = length ?w" .
  have pos: "0 < length ?w" using ne by simp
  have "calculateTextSimilarity t t = of_nat (length ?w) / of_nat (length ?w)"
    unfolding calculateTextSimilarity_def Let_def i u ..
  then show ?thesis using pos by simp
qed

lemma find_append_list:
  "find P (xs @ ys) = (case find P xs of None \<Rightarrow> find P ys | Some x \<Rightarrow> Some x)"
  by (induction xs) auto

lemma update_fresh_key: "k \<notin> fst ` set al \<Longrightarrow> AList.update k v al = al @ [(k, v)]"
  by (induction al) auto

lemma dedupStep_kept:
  assumes "find (reachesThreshold thr (titleOf r)) (ds_seenTitles st) = None"
  shows "dedupStep thr st r =
           st\<lparr>ds_deduplicated := ds_deduplicated st @ [r],
              ds_seenTitles := AList.update (titleOf r) r (ds_seenTitles st)\<rparr>"
  using assms by (simp add: dedupStep_def)

lemma dedupStep_dropped:
  assumes "find (reachesThreshold thr (titleOf r)) (ds_seenTitles st) = Some (t, s)"
  shows "dedupStep thr st r =
           st\<lparr>ds_duplicates := ds_duplicates st @
                 [\<lparr>dup_result = r, dup_duplicateOf = sr_id s,
                   dup_similarity = calculateTextSimilarity (titleOf r) t\<rparr>]\<rparr>"
  using assms by (simp add: dedupStep_def)

text \<open>
  For a threshold of at most 1 a kept result never has the title of a seen one, so
  \<^verbatim>\<open>seenTitles.set\<close> always appends: the seen titles are exactly the titles of the primary
  output, in order, and they are pairwise distinct.
\<close>

lemma kept_title_fresh:
  assumes "thr \<le> 1" and "find (reachesThreshold thr title) seen = None"
  shows "title \<notin> fst ` set seen"
proof
  assume "title \<in> fst ` set seen"
  then obtain s where "(title, s) \<in> set seen" by auto
  moreover have "reachesThreshold thr title (title, s)"
    using assms(1) by (simp add: reachesThreshold_def similarity_self)
  ultimately show False using assms(2) by (auto simp: find_None_iff)
qed

lemma dedupStep_invariant:
  assumes "thr \<le> 1"
    and "ds_seenTitles st = map (\<lambda>r. (titleOf r, r)) (ds_deduplicated st)"
    and "distinct (map titleOf (ds_deduplicated st))"
  shows "ds_seenTitles (dedupStep thr st r) = map (\<lambda>r. (titleOf r, r)) (ds_deduplicated (dedupStep thr st r))
         \<and> distinct (map titleOf (ds_deduplicated (dedupStep thr st r)))"
proof (cases "find (reachesThreshold thr (titleOf r)) (ds_seenTitles st)")
  case None
  have fresh: "titleOf r \<notin> fst ` set (ds_seenTitles st)"
    using kept_title_fresh[OF assms(1) None] .
  then have "titleOf r \<notin> set (map titleOf (ds_deduplicated st))"
    by (simp add: assms(2) image_image)
  then show ?thesis
    using assms(2,3) fresh by (simp add: dedupStep_kept[OF None] update_fresh_key)
next
  case (Some e)
  obtain t s where "e = (t, s)" by (cases e)
  with Some show ?thesis using assms(2,3) by (simp add: dedupStep_dropped)
qed

lemma dedupLoop_invariant:
  assumes "thr \<le> 1"
    and "ds_seenTitles st = map (\<lambda>r. (titleOf r, r)) (ds_deduplicated st)"
    and "distinct (map titleOf (ds_deduplicated st))"
  shows "ds_seenTitles (foldl (dedupStep thr) st rs) =
           map (\<lambda>r. (titleOf r, r)) (ds_deduplicated (foldl (dedupStep thr) st rs))
         \<and> distinct (map titleOf (ds_deduplicated (foldl (dedupStep thr) st rs)))"
  using assms(2,3)
proof (induction rs arbitrary: st)
  case Nil
  then show ?case by simp
next
  case (Cons r rs)
  from dedupStep_invariant[OF assms(1) Cons.prems] Cons.IH show ?case by simp
qed

lemma dedupStep_extends:
  "prefix (ds_deduplicated st) (ds_deduplicated (dedupStep thr st r))
   \<and> prefix (ds_duplicates st) (ds_duplicates (dedupStep thr st r))"
proof (cases "find (reachesThreshold thr (titleOf r)) (ds_seenTitles st)")
  case None
  then show ?thesis by (simp add: dedupStep_kept)
next
  case (Some e)
  obtain t s where "e = (t, s)" by (cases e)
  with Some show ?thesis by (simp add: dedupStep_dropped)
qed

lemma dedupLoop_extends:
  "prefix (ds_deduplicated st) (ds_deduplicated (foldl (dedupStep thr) st rs))
   \<and> prefix (ds_duplicates st) (ds_duplicates (foldl (dedupStep thr) st rs))"
proof (induction rs arbitrary: st)
  case Nil
  then show ?case by simp
next
  case (Cons r rs)
  have a: "prefix (ds_deduplicated st) (ds_deduplicated (dedupStep thr st r))"
    and b: "prefix (ds_duplicates st) (ds_duplicates (dedupStep thr st r))"
    using dedupStep_extends[of st thr r] by simp_all
  from Cons.IH[of "dedupStep thr st r"] a b show ?case
    by (auto intro: prefix_order.trans)
qed

lemma deduplicateLoop_invariant:
  assumes "thr \<le> 1"
  shows "ds_seenTitles (deduplicateLoop thr rs) = map (\<lambda>r. (titleOf r, r)) (ds_deduplicated (deduplicateLoop thr rs))
         \<and> distinct (map titleOf (ds_deduplicated (deduplicateLoop thr rs)))"
  unfolding deduplicateLoop_def
  by (rule dedupLoop_invariant[OF assms]) simp_all

lemma dedupLoop_mask:
  "\<exists>mask. length mask = length rs
     \<and> ds_deduplicated (foldl (dedupStep thr) st rs)
         = ds_deduplicated st @ map fst (filter snd (zip rs mask))
     \<and> map dup_result (ds_duplicates (foldl (dedupStep thr) st rs))
         = map dup_result (ds_duplicates st) @ map fst (filter (\<lambda>p. \<not> snd p) (zip rs mask))"
proof (induction rs arbitrary: st)
  case Nil
  then show ?case by simp
next
  case (Cons r rs)
  let ?st' = "dedupStep thr st r"
  from Cons.IH[of ?st'] obtain mask where m: "length mask = length rs"
    "ds_deduplicated (foldl (dedupStep thr) ?st' rs) = ds_deduplicated ?st' @ map fst (filter snd (zip rs mask))"
    "map dup_result (ds_duplicates (foldl (dedupStep thr) ?st' rs))
         = map dup_result (ds_duplicates ?st') @ map fst (filter (\<lambda>p. \<not> snd p) (zip rs mask))"
    by blast
  show ?case
  proof (cases "find (reachesThreshold thr (titleOf r)) (ds_seenTitles st)")
    case None
    have "length (True # mask) = length (r # rs)" using m(1) by simp
    moreover have "ds_deduplicated (foldl (dedupStep thr) st (r # rs))
         = ds_deduplicated st @ map fst (filter snd (zip (r # rs) (True # mask)))"
      using m(2) by (simp add: dedupStep_kept[OF None])
    moreover have "map dup_result (ds_duplicates (foldl (dedupStep thr) st (r # rs)))
         = map dup_result (ds_duplicates st) @ map fst (filter (\<lambda>p. \<not> snd p) (zip (r # rs) (True # mask)))"
      using m(3) by (simp add: dedupStep_kept[OF None])
    ultimately show ?thesis by blast
  next
    case (Some e)
    obtain t s where e: "e = (t, s)" by (cases e)
    note d = dedupStep_dropped[OF Some[unfolded e]]
    have "length (False # mask) = length (r # rs)" using m(1) by simp
    moreover have "ds_deduplicated (foldl (dedupStep thr) st (r # rs))
         = ds_deduplicated st @ map fst (filter snd (zip (r # rs) (False # mask)))"
      using m(2) by (simp add: d)
    moreover have "map dup_result (ds_duplicates (foldl (dedupStep thr) st (r # rs)))
         = map dup_result (ds_duplicates st) @ map fst (filter (\<lambda>p. \<not> snd p) (zip (r # rs) (False # mask)))"
      using m(3) by (simp add: d)
    ultimately show ?thesis by blast
  qed
qed

text \<open>
  C9. For every input list and every threshold the handler answers with a partition of
  its input: there is a selection of positions such that the primary output is the input
  at the selected positions and the duplicates list (without the two added fields) is
  the input at the other positions, each in input order. Hence every input element is in
  exactly one of the two lists and the deduplicated count plus the duplicates-removed
  count is the original count.
\<close>

theorem deduplicate_partitions_input:
  "\<exists>resp mask. deduplicate (Some results) thresholdOpt = Ok resp
     \<and> length mask = length results
     \<and> dr_deduplicated resp = map fst (filter snd (zip results mask))
     \<and> map dup_result (dr_duplicates resp) = map fst (filter (\<lambda>p. \<not> snd p) (zip results mask))
     \<and> deduplicatedCount (dr_stats resp) = length (dr_deduplicated resp)
     \<and> duplicatesRemoved (dr_stats resp) = length (dr_duplicates resp)
     \<and> originalCount (dr_stats resp) = length results
     \<and> deduplicatedCount (dr_stats resp) + duplicatesRemoved (dr_stats resp) = length results"
proof -
  define thr where "thr = (case thresholdOpt of None \<Rightarrow> 85 / 100 | Some t \<Rightarrow> (t::rat))"
  define st where "st = deduplicateLoop thr results"
  from dedupLoop_mask[of results thr "\<lparr>ds_deduplicated = [], ds_duplicates = [], ds_seenTitles = []\<rparr>"]
  obtain mask where m: "length mask = length results"
    "ds_deduplicated st = map fst (filter snd (zip results mask))"
    "map dup_result (ds_duplicates st) = map fst (filter (\<lambda>p. \<not> snd p) (zip results mask))"
    unfolding st_def deduplicateLoop_def by auto
  have "length (ds_deduplicated st) + length (map dup_result (ds_duplicates st))
          = length (zip results mask)"
    unfolding m(2) m(3) length_map by (rule sum_length_filter_compl)
  then have cnt: "length (ds_deduplicated st) + length (ds_duplicates st) = length results"
    using m(1) by simp
  have r: "deduplicate (Some results) thresholdOpt =
      Ok \<lparr>dr_original = results, dr_deduplicated = ds_deduplicated st,
                  dr_duplicates = ds_duplicates st,
                  dr_stats = \<lparr>originalCount = length results,
                              deduplicatedCount = length (ds_deduplicated st),
                              duplicatesRemoved = length (ds_duplicates st)\<rparr>\<rparr>"
    by (simp add: deduplicate_def Let_def thr_def st_def)
  show ?thesis
    unfolding r using m cnt by auto
qed

text \<open>
  C8, as the specification states it, fails when the earlier of the two entries is
  itself dropped as a near-duplicate of a third, earlier entry: with threshold 0.6 and
  the titles "reset password email", "Reset Password", "reset password" the primary
  output holds the first entry only, and both later entries are recorded as duplicates
  of the first.
\<close>

theorem identical_titles_counterexample:
  "titleOf sampleB = titleOf sampleC
   \<and> ds_deduplicated (deduplicateLoop (3 / 5) [sampleA, sampleB, sampleC]) = [sampleA]
   \<and> map dup_result (ds_duplicates (deduplicateLoop (3 / 5) [sampleA, sampleB, sampleC])) = [sampleB, sampleC]
   \<and> map dup_duplicateOf (ds_duplicates (deduplicateLoop (3 / 5) [sampleA, sampleB, sampleC]))
        = [sr_id sampleA, sr_id sampleA]
   \<and> sr_id sampleA \<noteq> sr_id sampleB"
  by code_simp

text \<open>
  C8, amended. Let two entries \<open>x\<close> (earlier) and \<open>y\<close> (later) have the same case-folded
  title and let the threshold be at most 1. Processing \<open>y\<close> never extends the primary
  output and appends exactly one entry for \<open>y\<close> to the duplicates. When \<open>x\<close> was kept, that
  entry names \<open>x\<close> as the original with similarity 1; when \<open>x\<close> was itself dropped, it names
  the same original, with the same similarity, as the entry of \<open>x\<close>. What the loop does
  after \<open>y\<close> only extends both lists, so these entries are in the final answer, and the
  titles of the final primary output are pairwise distinct: it holds at most one of the
  two, and exactly one when \<open>x\<close> was kept. The entry of \<open>x\<close> is decided before \<open>y\<close> is read,
  so \<open>x\<close> is never a duplicate of \<open>y\<close>.
\<close>

theorem later_identical_title_is_duplicate:
  assumes "threshold \<le> 1" and "titleOf x = titleOf y"
  shows "ds_deduplicated (deduplicateLoop threshold (pre @ x # mid @ [y]))
           = ds_deduplicated (deduplicateLoop threshold (pre @ x # mid))
     \<and> (\<exists>d. ds_duplicates (deduplicateLoop threshold (pre @ x # mid @ [y]))
               = ds_duplicates (deduplicateLoop threshold (pre @ x # mid)) @ [d]
           \<and> dup_result d = y
           \<and> (ds_deduplicated (deduplicateLoop threshold (pre @ [x]))
                 = ds_deduplicated (deduplicateLoop threshold pre) @ [x]
               \<longrightarrow> dup_duplicateOf d = sr_id x \<and> dup_similarity d = 1)
           \<and> (\<forall>dx. ds_duplicates (deduplicateLoop threshold (pre @ [x]))
                       = ds_duplicates (deduplicateLoop threshold pre) @ [dx]
               \<longrightarrow> dup_duplicateOf d = dup_duplicateOf dx \<and> dup_similarity d = dup_similarity dx))
     \<and> prefix (ds_deduplicated (deduplicateLoop threshold (pre @ x # mid @ [y])))
              (ds_deduplicated (deduplicateLoop threshold (pre @ x # mid @ y # post)))
     \<and> prefix (ds_duplicates (deduplicateLoop threshold (pre @ x # mid @ [y])))
              (ds_duplicates (deduplicateLoop threshold (pre @ x # mid @ y # post)))
     \<and> distinct (map titleOf (ds_deduplicated (deduplicateLoop threshold (pre @ x # mid @ y # post))))"
proof -
  define s0 where "s0 = deduplicateLoop threshold pre"
  define s1 where "s1 = dedupStep threshold s0 x"
  define s2 where "s2 = foldl (dedupStep threshold) s1 mid"
  define s3 where "s3 = dedupStep threshold s2 y"
  define P where "P = reachesThreshold threshold (titleOf x)"
  have r1: "deduplicateLoop threshold (pre @ [x]) = s1"
    by (simp add: s1_def s0_def deduplicateLoop_def)
  have r2: "deduplicateLoop threshold (pre @ x # mid) = s2"
    by (simp add: s2_def s1_def s0_def deduplicateLoop_def)
  have r3: "deduplicateLoop threshold (pre @ x # mid @ [y]) = s3"
    by (simp add: s3_def s2_def s1_def s0_def deduplicateLoop_def)
  have rF: "deduplicateLoop threshold (pre @ x # mid @ y # post) = foldl (dedupStep threshold) s3 post"
    by (simp add: s3_def s2_def s1_def s0_def deduplicateLoop_def)
  have i0: "ds_seenTitles s0 = map (\<lambda>r. (titleOf r, r)) (ds_deduplicated s0)"
    using deduplicateLoop_invariant[OF assms(1), of pre] by (simp add: s0_def)
  have i1: "ds_seenTitles s1 = map (\<lambda>r. (titleOf r, r)) (ds_deduplicated s1)"
    using deduplicateLoop_invariant[OF assms(1), of "pre @ [x]"] by (simp add: r1)
  have i2: "ds_seenTitles s2 = map (\<lambda>r. (titleOf r, r)) (ds_deduplicated s2)"
    using deduplicateLoop_invariant[OF assms(1), of "pre @ x # mid"] by (simp add: r2)
  have "prefix (ds_deduplicated s1) (ds_deduplicated s2)"
    using dedupLoop_extends[of s1 threshold mid] by (simp add: s2_def)
  then obtain k where k: "ds_deduplicated s2 = ds_deduplicated s1 @ k"
    by (auto simp: prefix_def)
  have seen2: "ds_seenTitles s2 = ds_seenTitles s1 @ map (\<lambda>r. (titleOf r, r)) k"
    by (simp add: i1 i2 k)
  have Py: "reachesThreshold threshold (titleOf y) = P"
    by (simp add: P_def assms(2))
  have ext: "prefix (ds_deduplicated s3) (ds_deduplicated (foldl (dedupStep threshold) s3 post))
     \<and> prefix (ds_duplicates s3) (ds_duplicates (foldl (dedupStep threshold) s3 post))"
    by (rule dedupLoop_extends)
  have dist: "distinct (map titleOf (ds_deduplicated (deduplicateLoop threshold (pre @ x # mid @ y # post))))"
    using deduplicateLoop_invariant[OF assms(1)] by blast
  show ?thesis
  proof (cases "find P (ds_seenTitles s0)")
    case None
    have st1: "s1 = s0\<lparr>ds_deduplicated := ds_deduplicated s0 @ [x],
              ds_seenTitles := AList.update (titleOf x) x (ds_seenTitles s0)\<rparr>"
      unfolding s1_def using None by (simp add: dedupStep_kept P_def)
    then have seen1: "ds_seenTitles s1 = ds_seenTitles s0 @ [(titleOf x, x)]"
      using i1 i0 by simp
    have Px: "P (titleOf x, x)"
      using assms(1) by (simp add: P_def reachesThreshold_def similarity_self)
    have f2: "find P (ds_seenTitles s2) = Some (titleOf x, x)"
      using None Px by (simp add: seen2 seen1 find_append_list)
    have st3: "s3 = s2\<lparr>ds_duplicates := ds_duplicates s2 @
                 [\<lparr>dup_result = y, dup_duplicateOf = sr_id x,
                   dup_similarity = calculateTextSimilarity (titleOf y) (titleOf x)\<rparr>]\<rparr>"
      unfolding s3_def using f2 by (simp add: dedupStep_dropped Py)
    have sim: "calculateTextSimilarity (titleOf y) (titleOf x) = 1"
      by (simp add: assms(2)[symmetric] similarity_self)
    have nodup: "ds_duplicates s1 = ds_duplicates s0" by (simp add: st1)
    show ?thesis
      unfolding r1 r2 r3 rF s0_def[symmetric]
      using ext dist[unfolded rF] by (simp add: st3 sim nodup)
  next
    case (Some e)
    obtain t s where e: "e = (t, s)" by (cases e)
    have st1: "s1 = s0\<lparr>ds_duplicates := ds_duplicates s0 @
                 [\<lparr>dup_result = x, dup_duplicateOf = sr_id s,
                   dup_similarity = calculateTextSimilarity (titleOf x) t\<rparr>]\<rparr>"
      unfolding s1_def using Some e by (simp add: dedupStep_dropped P_def)
    have f2: "find P (ds_seenTitles s2) = Some (t, s)"
      using Some e by (simp add: seen2 st1 find_append_list)
    have st3: "s3 = s2\<lparr>ds_duplicates := ds_duplicates s2 @
                 [\<lparr>dup_result = y, dup_duplicateOf = sr_id s,
                   dup_similarity = calculateTextSimilarity (titleOf y) t\<rparr>]\<rparr>"
      unfolding s3_def using f2 by (simp add: dedupStep_dropped Py)
    have nokeep: "ds_deduplicated s1 = ds_deduplicated s0" by (simp add: st1)
    show ?thesis
      unfolding r1 r2 r3 rF s0_def[symmetric]
      using ext dist[unfolded rF] by (simp add: st3 nokeep st1 assms(2))
  qed
qed

theorem later_identical_title_is_duplicate_witness:
  "(9 / 10 :: rat) \<le> 1 \<and> titleOf sampleB = titleOf sampleC
   \<and> ds_deduplicated (deduplicateLoop (9 / 10) [sampleA, sampleB, sampleC]) = [sampleA, sampleB]
   \<and> (\<exists>d. ds_duplicates (deduplicateLoop (9 / 10) [sampleA, sampleB, sampleC]) = [d]
          \<and> dup_result d = sampleC \<and> dup_duplicateOf d = sr_id sampleB \<and> dup_similarity d = 1)"
proof -
  have h1: "(9 / 10 :: rat) \<le> 1" by simp
  have h2: "titleOf sampleB = titleOf sampleC" by code_simp
  have kept: "ds_deduplicated (deduplicateLoop (9 / 10) ([sampleA] @ [sampleB]))
                = ds_deduplicated (deduplicateLoop (9 / 10) [sampleA]) @ [sampleB]"
    by code_simp
  have before: "ds_deduplicated (deduplicateLoop (9 / 10) [sampleA, sampleB]) = [sampleA, sampleB]"
    "ds_duplicates (deduplicateLoop (9 / 10) [sampleA, sampleB]) = []"
    by code_simp+
  from later_identical_title_is_duplicate [OF h1 h2, of "[sampleA]" "[]" "[]"] kept before
  show ?thesis using h1 h2 by auto
qed

section \<open>Properties of reciprocal rank fusion\<close>

text \<open>
  The store returns every document at most once per query, so the identifiers of a
  result list are pairwise distinct. Under this condition the rank stored in an entry of
  \<^verbatim>\<open>resultMap\<close> is the position of its identifier in the method's list.
\<close>

lemma rankFrom_None_iff: "rankFrom i ids x = None \<longleftrightarrow> x \<notin> set ids"
  by (induction ids arbitrary: i) auto

lemma rankFrom_positive: "rankFrom i ids x = Some r \<Longrightarrow> i < r"
proof (induction ids arbitrary: i)
  case Nil
  then show ?case by simp
next
  case (Cons y ys)
  then show ?case by (fastforce split: if_splits dest: Suc_lessD)
qed

lemma processBM25_keys_distinct:
  "distinct (map fst m) \<Longrightarrow> distinct (map fst (processBM25 mn mx i docs m))"
  by (induction docs arbitrary: i m) (simp_all add: distinct_update)

lemma processVector_keys_distinct:
  "distinct (map fst m) \<Longrightarrow> distinct (map fst (processVector mn mx i docs m))"
  by (induction docs arbitrary: i m) (simp_all add: distinct_update Let_def split: option.splits)

lemma processBM25_lookup:
  assumes "distinct (map sdoc_id docs)"
  shows "(rankFrom i (map sdoc_id docs) x = None \<longrightarrow>
            map_of (processBM25 mn mx i docs m) x = map_of m x)
       \<and> (\<forall>r. rankFrom i (map sdoc_id docs) x = Some r \<longrightarrow>
            (\<exists>e. map_of (processBM25 mn mx i docs m) x = Some e \<and> re_id e = x
                 \<and> re_bm25Rank e = Some r \<and> re_vectorRank e = None))"
  using assms
proof (induction docs arbitrary: i m)
  case Nil
  then show ?case by simp
next
  case (Cons d docs)
  let ?e = "\<lparr>re_id = sdoc_id d, re_fields = sdoc_fields d,
           re_bm25Score = sdoc_score d,
           re_bm25Normalized = normalizeBM25 (sdoc_score d) mn mx,
           re_bm25Rank = Some (i + 1),
           re_vectorScore = 0, re_vectorNormalized = 0, re_vectorRank = None,
           re_foundIn = ''bm25''\<rparr>"
  let ?m1 = "AList.update (sdoc_id d) ?e m"
  from Cons.prems have dd: "distinct (map sdoc_id docs)" and fresh: "sdoc_id d \<notin> set (map sdoc_id docs)"
    by simp_all
  note ih = Cons.IH[OF dd, of "Suc i" ?m1]
  show ?case
  proof (cases "x = sdoc_id d")
    case True
    with fresh have "rankFrom (Suc i) (map sdoc_id docs) x = None"
      by (simp add: rankFrom_None_iff)
    with ih have "map_of (processBM25 mn mx (Suc i) docs ?m1) x = map_of ?m1 x" by simp
    then show ?thesis using True by (simp add: update_conv')
  next
    case False
    then show ?thesis using ih by (simp add: update_conv')
  qed
qed

lemma processVector_lookup:
  assumes "distinct (map sdoc_id docs)"
  shows "(rankFrom i (map sdoc_id docs) x = None \<longrightarrow>
            map_of (processVector mn mx i docs m) x = map_of m x)
       \<and> (\<forall>r. rankFrom i (map sdoc_id docs) x = Some r \<longrightarrow>
            (\<exists>e. map_of (processVector mn mx i docs m) x = Some e
                 \<and> re_vectorRank e = Some r
                 \<and> (case map_of m x of
                       None \<Rightarrow> re_id e = x \<and> re_bm25Rank e = None
                     | Some e0 \<Rightarrow> re_id e = re_id e0 \<and> re_bm25Rank e = re_bm25Rank e0)))"
  using assms
proof (induction docs arbitrary: i m)
  case Nil
  then show ?case by simp
next
  case (Cons d docs)
  define m1 where "m1 = (let normalizedScore = normalizeVector (sdoc_score d) mn mx
        in case map_of m (sdoc_id d) of
             Some existing \<Rightarrow>
               AList.update (sdoc_id d)
                 (existing\<lparr>re_vectorScore := sdoc_score d,
                           re_vectorNormalized := normalizedScore,
                           re_vectorRank := Some (i + 1),
                           re_foundIn := ''both''\<rparr>)
                 m
           | None \<Rightarrow>
               AList.update (sdoc_id d)
                 \<lparr>re_id = sdoc_id d, re_fields = sdoc_fields d,
                  re_bm25Score = 0, re_bm25Normalized = 0, re_bm25Rank = None,
                  re_vectorScore = sdoc_score d, re_vectorNormalized = normalizedScore,
                  re_vectorRank = Some (i + 1), re_foundIn = ''vector''\<rparr>
                 m)"
  have step: "processVector mn mx i (d # docs) m = processVector mn mx (Suc i) docs m1"
    by (simp add: m1_def)
  have other: "y \<noteq> sdoc_id d \<Longrightarrow> map_of m1 y = map_of m y" for y
    by (simp add: m1_def Let_def update_conv' split: option.splits)
  have self: "\<exists>e. map_of m1 (sdoc_id d) = Some e \<and> re_vectorRank e = Some (Suc i)
                 \<and> (case map_of m (sdoc_id d) of
                       None \<Rightarrow> re_id e = sdoc_id d \<and> re_bm25Rank e = None
                     | Some e0 \<Rightarrow> re_id e = re_id e0 \<and> re_bm25Rank e = re_bm25Rank e0)"
    by (simp add: m1_def Let_def update_conv' split: option.splits)
  from Cons.prems have dd: "distinct (map sdoc_id docs)" and fresh: "sdoc_id d \<notin> set (map sdoc_id docs)"
    by simp_all
  note ih = Cons.IH[OF dd, of "Suc i" m1]
  show ?case
  proof (cases "x = sdoc_id d")
    case True
    with fresh have "rankFrom (Suc i) (map sdoc_id docs) x = None"
      by (simp add: rankFrom_None_iff)
    with ih have "map_of (processVector mn mx (Suc i) docs m1) x = map_of m1 x" by simp
    then show ?thesis unfolding True using self by (simp add: step del: processVector.simps)
  next
    case False
    then show ?thesis using ih other[OF False] by (simp add: step del: processVector.simps)
  qed
qed

lemma buildResultMap_entry:
  assumes "distinct (map sdoc_id bm25Results)" and "distinct (map sdoc_id vectorResults)"
    and "(x, e) \<in> set (buildResultMap bm25Results vectorResults)"
  shows "re_id e = x
       \<and> re_bm25Rank e = rankIn (map sdoc_id bm25Results) x
       \<and> re_vectorRank e = rankIn (map sdoc_id vectorResults) x
       \<and> (x \<in> set (map sdoc_id bm25Results) \<or> x \<in> set (map sdoc_id vectorResults))"
proof -
  define mnB where "mnB = mathMinWith (map sdoc_score bm25Results) 0"
  define mxB where "mxB = mathMaxWith (map sdoc_score bm25Results) 1"
  define mnV where "mnV = mathMinWith (map sdoc_score vectorResults) 0"
  define mxV where "mxV = mathMaxWith (map sdoc_score vectorResults) 1"
  define m0 where "m0 = processBM25 mnB mxB 0 bm25Results []"
  define m1 where "m1 = processVector mnV mxV 0 vectorResults m0"
  have b: "buildResultMap bm25Results vectorResults = m1"
    by (simp add: buildResultMap_def Let_def m1_def m0_def mnB_def mxB_def mnV_def mxV_def)
  have "distinct (map fst m0)" unfolding m0_def by (rule processBM25_keys_distinct) simp
  then have "distinct (map fst m1)" unfolding m1_def by (rule processVector_keys_distinct)
  with assms(3) have look: "map_of m1 x = Some e" by (simp add: b)
  note B = processBM25_lookup[OF assms(1), of 0 x mnB mxB "[]", folded m0_def rankIn_def]
  note V = processVector_lookup[OF assms(2), of 0 x mnV mxV m0, folded m1_def rankIn_def]
  show ?thesis
  proof (cases "rankIn (map sdoc_id vectorResults) x")
    case None
    with V look have l0: "map_of m0 x = Some e" by simp
    show ?thesis
    proof (cases "rankIn (map sdoc_id bm25Results) x")
      case None
      with B l0 show ?thesis by simp
    next
      case (Some r)
      then have "x \<in> set (map sdoc_id bm25Results)"
        using rankFrom_None_iff[of 0 "map sdoc_id bm25Results" x] by (simp add: rankIn_def)
      with Some B l0 \<open>rankIn (map sdoc_id vectorResults) x = None\<close> show ?thesis
        by auto
    qed
  next
    case (Some rv)
    with V look have v: "re_vectorRank e = Some rv"
      "case map_of m0 x of None \<Rightarrow> re_id e = x \<and> re_bm25Rank e = None
         | Some e0 \<Rightarrow> re_id e = re_id e0 \<and> re_bm25Rank e = re_bm25Rank e0"
      by auto
    have inV: "x \<in> set (map sdoc_id vectorResults)"
      using Some rankFrom_None_iff[of 0 "map sdoc_id vectorResults" x] by (simp add: rankIn_def)
    show ?thesis
    proof (cases "rankIn (map sdoc_id bm25Results) x")
      case None
      with B have "map_of m0 x = None" by simp
      with v None Some inV show ?thesis by simp
    next
      case (Some rb)
      with B obtain e0 where "map_of m0 x = Some e0" "re_id e0 = x" "re_bm25Rank e0 = Some rb"
        by auto
      with v Some \<open>rankIn (map sdoc_id vectorResults) x = Some rv\<close> inV show ?thesis by simp
    qed
  qed
qed

lemma buildResultMap_keys:
  assumes "distinct (map sdoc_id bm25Results)" and "distinct (map sdoc_id vectorResults)"
  shows "fst ` set (buildResultMap bm25Results vectorResults)
           = set (map sdoc_id bm25Results) \<union> set (map sdoc_id vectorResults)"
proof -
  define mnB where "mnB = mathMinWith (map sdoc_score bm25Results) 0"
  define mxB where "mxB = mathMaxWith (map sdoc_score bm25Results) 1"
  define mnV where "mnV = mathMinWith (map sdoc_score vectorResults) 0"
  define mxV where "mxV = mathMaxWith (map sdoc_score vectorResults) 1"
  define m0 where "m0 = processBM25 mnB mxB 0 bm25Results []"
  define m1 where "m1 = processVector mnV mxV 0 vectorResults m0"
  have b: "buildResultMap bm25Results vectorResults = m1"
    by (simp add: buildResultMap_def Let_def m1_def m0_def mnB_def mxB_def mnV_def mxV_def)
  note B = processBM25_lookup[OF assms(1), of 0 _ mnB mxB "[]", folded m0_def rankIn_def]
  note V = processVector_lookup[OF assms(2), of 0 _ mnV mxV m0, folded m1_def rankIn_def]
  have "x \<in> dom (map_of m1) \<longleftrightarrow> x \<in> set (map sdoc_id bm25Results) \<union> set (map sdoc_id vectorResults)" for x
  proof (cases "rankIn (map sdoc_id vectorResults) x")
    case None
    then have nv: "x \<notin> set (map sdoc_id vectorResults)"
      by (simp add: rankIn_def rankFrom_None_iff)
    from None V[of x] have eq: "map_of m1 x = map_of m0 x" by simp
    show ?thesis
    proof (cases "rankIn (map sdoc_id bm25Results) x")
      case None
      then have "x \<notin> set (map sdoc_id bm25Results)" by (simp add: rankIn_def rankFrom_None_iff)
      moreover from None B[of x] have "map_of m0 x = None" by simp
      ultimately show ?thesis using nv eq by (simp add: domIff)
    next
      case (Some r)
      then have "x \<in> set (map sdoc_id bm25Results)"
        using rankFrom_None_iff[of 0 "map sdoc_id bm25Results" x] by (simp add: rankIn_def)
      moreover from Some B[of x] have "map_of m0 x \<noteq> None" by auto
      ultimately show ?thesis using eq by (simp add: domIff)
    qed
  next
    case (Some r)
    then have "x \<in> set (map sdoc_id vectorResults)"
      using rankFrom_None_iff[of 0 "map sdoc_id vectorResults" x] by (simp add: rankIn_def)
    moreover from Some V[of x] have "map_of m1 x \<noteq> None" by auto
    ultimately show ?thesis by (simp add: domIff)
  qed
  then have "dom (map_of m1) = set (map sdoc_id bm25Results) \<union> set (map sdoc_id vectorResults)"
    by blast
  then show ?thesis by (simp add: b dom_map_of_conv_image_fst)
qed

lemma fuseRRF_score:
  assumes "re_bm25Rank e = rankIn bs x" and "re_vectorRank e = rankIn vs x"
  shows "fe_fusedScore (fuseRRF e) = rrfContribution (rankIn bs x) + rrfContribution (rankIn vs x)"
proof -
  have t: "(case rankIn ids x of None \<Rightarrow> 0 | Some r \<Rightarrow> if r = 0 then 0 else 1 / (60 + of_nat r))
            = rrfContribution (rankIn ids x)" for ids
  proof (cases "rankIn ids x")
    case None
    then show ?thesis by simp
  next
    case (Some r)
    then have "0 < r" using rankFrom_positive[of 0 ids x r] by (simp add: rankIn_def)
    with Some show ?thesis by simp
  qed
  show ?thesis
    by (simp add: fuseRRF_def Let_def assms t)
qed

lemma rerank_rrf_candidate:
  assumes "distinct (map sdoc_id bm25Results)" and "distinct (map sdoc_id vectorResults)"
    and "c \<in> set (rerankFusion ''rrf'' bw vw bm25Results vectorResults)"
  shows "fe_fusedScore c =
           rrfContribution (rankIn (map sdoc_id bm25Results) (re_id (fe_entry c)))
         + rrfContribution (rankIn (map sdoc_id vectorResults) (re_id (fe_entry c)))
       \<and> (re_id (fe_entry c) \<in> set (map sdoc_id bm25Results)
            \<or> re_id (fe_entry c) \<in> set (map sdoc_id vectorResults))"
proof -
  from assms(3) obtain x e where xe: "(x, e) \<in> set (buildResultMap bm25Results vectorResults)"
    and c: "c = fuseRRF e"
    by (auto simp: rerankFusion_def Let_def)
  note E = buildResultMap_entry[OF assms(1,2) xe]
  have id: "re_id (fe_entry c) = x" using E by (simp add: c fuseRRF_def Let_def)
  from E have "fe_fusedScore (fuseRRF e) =
      rrfContribution (rankIn (map sdoc_id bm25Results) x) + rrfContribution (rankIn (map sdoc_id vectorResults) x)"
    by (intro fuseRRF_score) simp_all
  then show ?thesis using E id unfolding c by simp
qed

lemma rerank_rrf_ids:
  assumes "distinct (map sdoc_id bm25Results)" and "distinct (map sdoc_id vectorResults)"
  shows "(\<lambda>c. re_id (fe_entry c)) ` set (rerankFusion ''rrf'' bw vw bm25Results vectorResults)
           = set (map sdoc_id bm25Results) \<union> set (map sdoc_id vectorResults)"
proof -
  have "(\<lambda>c. re_id (fe_entry c)) ` set (rerankFusion ''rrf'' bw vw bm25Results vectorResults)
          = (\<lambda>p. re_id (snd p)) ` set (buildResultMap bm25Results vectorResults)"
    by (simp add: rerankFusion_def Let_def image_image fuseRRF_def)
  also have "\<dots> = fst ` set (buildResultMap bm25Results vectorResults)"
  proof (rule image_cong[OF refl])
    fix p assume "p \<in> set (buildResultMap bm25Results vectorResults)"
    then have "(fst p, snd p) \<in> set (buildResultMap bm25Results vectorResults)" by simp
    from buildResultMap_entry[OF assms this] show "re_id (snd p) = fst p" by simp
  qed
  also have "\<dots> = set (map sdoc_id bm25Results) \<union> set (map sdoc_id vectorResults)"
    by (rule buildResultMap_keys[OF assms])
  finally show ?thesis .
qed

lemma rankIn_absent: "x \<notin> set ids \<Longrightarrow> rankIn ids x = None"
  by (simp add: rankIn_def rankFrom_None_iff)

text \<open>
  C6. Under the \<open>rrf\<close> policy the fused score of every candidate is the sum, over the two
  methods, of \<open>1 / (60 + rank)\<close> with the candidate's 1-based rank in the method's result
  list; a method from whose list the candidate is absent contributes exactly 0. The
  candidates are exactly the documents of the two lists.
\<close>

theorem rrf_fused_score_is_sum_of_reciprocal_ranks:
  assumes "distinct (map sdoc_id bm25Results)" and "distinct (map sdoc_id vectorResults)"
  shows "(\<forall>c \<in> set (rerankFusion ''rrf'' bw vw bm25Results vectorResults).
            fe_fusedScore c =
              rrfContribution (rankIn (map sdoc_id bm25Results) (re_id (fe_entry c)))
            + rrfContribution (rankIn (map sdoc_id vectorResults) (re_id (fe_entry c))))
       \<and> (\<lambda>c. re_id (fe_entry c)) ` set (rerankFusion ''rrf'' bw vw bm25Results vectorResults)
           = set (map sdoc_id bm25Results) \<union> set (map sdoc_id vectorResults)
       \<and> (\<forall>ids x. x \<notin> set ids \<longrightarrow> rrfContribution (rankIn ids x) = 0)"
  using rerank_rrf_candidate[OF assms] rerank_rrf_ids[OF assms] by (simp add: rankIn_absent)

theorem rrf_fused_score_is_sum_of_reciprocal_ranks_witness:
  "distinct (map sdoc_id sampleBm25) \<and> distinct (map sdoc_id sampleVector)
   \<and> map (\<lambda>c. (re_id (fe_entry c), fe_fusedScore c))
          (rerankFusion ''rrf'' (2 / 5) (3 / 5) sampleBm25 sampleVector)
       = [(''b'', 1 / 62 + 1 / 61), (''a'', 1 / 61), (''c'', 1 / 62)]
   \<and> list_all (\<lambda>c. fe_fusedScore c =
                     rrfContribution (rankIn (map sdoc_id sampleBm25) (re_id (fe_entry c)))
                   + rrfContribution (rankIn (map sdoc_id sampleVector) (re_id (fe_entry c))))
        (rerankFusion ''rrf'' (2 / 5) (3 / 5) sampleBm25 sampleVector)"
proof -
  have h1: "distinct (map sdoc_id sampleBm25)" by (simp add: sampleBm25_def)
  have h2: "distinct (map sdoc_id sampleVector)" by (simp add: sampleVector_def)
  have v: "map (\<lambda>c. (re_id (fe_entry c), fe_fusedScore c))
          (rerankFusion ''rrf'' (2 / 5) (3 / 5) sampleBm25 sampleVector)
       = [(''b'', 1 / 62 + 1 / 61), (''a'', 1 / 61), (''c'', 1 / 62)]"
    by code_simp
  show ?thesis
    using h1 h2 v rrf_fused_score_is_sum_of_reciprocal_ranks [OF h1 h2, of "2 / 5" "3 / 5"]
    by (simp add: list_all_iff)
qed

lemma outranks_contribution:
  "outranks ra rb \<Longrightarrow> rrfContribution rb \<le> rrfContribution ra"
proof (induction ra rb rule: outranks.induct)
  case (1 ra)
  then show ?case by (cases ra) simp_all
next
  case (2 rb)
  then show ?case by simp
next
  case (3 ra rb)
  then have "(60::rat) + of_nat ra \<le> 60 + of_nat rb" by simp
  moreover have "(0::rat) < 60 + of_nat ra" by (simp add: add_pos_nonneg)
  ultimately show ?case by (simp add: frac_le)
qed

text \<open>
  C7. Reciprocal rank fusion is monotonic: when candidate \<open>a\<close> outranks candidate \<open>b\<close> in
  every contributing method, the fused score of \<open>a\<close> is at least the fused score of \<open>b\<close>.
\<close>

theorem rrf_fusion_monotonic:
  assumes "distinct (map sdoc_id bm25Results)" and "distinct (map sdoc_id vectorResults)"
    and "a \<in> set (rerankFusion ''rrf'' bw vw bm25Results vectorResults)"
    and "b \<in> set (rerankFusion ''rrf'' bw vw bm25Results vectorResults)"
    and "outranks (rankIn (map sdoc_id bm25Results) (re_id (fe_entry a)))
                  (rankIn (map sdoc_id bm25Results) (re_id (fe_entry b)))"
    and "outranks (rankIn (map sdoc_id vectorResults) (re_id (fe_entry a)))
                  (rankIn (map sdoc_id vectorResults) (re_id (fe_entry b)))"
  shows "fe_fusedScore b \<le> fe_fusedScore a"
proof -
  from rerank_rrf_candidate[OF assms(1,2,3)] rerank_rrf_candidate[OF assms(1,2,4)]
  have "fe_fusedScore a =
           rrfContribution (rankIn (map sdoc_id bm25Results) (re_id (fe_entry a)))
         + rrfContribution (rankIn (map sdoc_id vectorResults) (re_id (fe_entry a)))"
    and "fe_fusedScore b =
           rrfContribution (rankIn (map sdoc_id bm25Results) (re_id (fe_entry b)))
         + rrfContribution (rankIn (map sdoc_id vectorResults) (re_id (fe_entry b)))"
    by simp_all
  then show ?thesis
    using outranks_contribution[OF assms(5)] outranks_contribution[OF assms(6)] by simp
qed

theorem rrf_fusion_monotonic_witness:
  "distinct (map sdoc_id sampleBm25) \<and> distinct (map sdoc_id sampleVector)
   \<and> re_id (fe_entry (rerankFusion ''rrf'' (2 / 5) (3 / 5) sampleBm25 sampleVector ! 0)) = ''b''
   \<and> re_id (fe_entry (rerankFusion ''rrf'' (2 / 5) (3 / 5) sampleBm25 sampleVector ! 2)) = ''c''
   \<and> outranks (rankIn (map sdoc_id sampleBm25) ''b'') (rankIn (map sdoc_id sampleBm25) ''c'')
   \<and> outranks (rankIn (map sdoc_id sampleVector) ''b'') (rankIn (map sdoc_id sampleVector) ''c'')
   \<and> fe_fusedScore (rerankFusion ''rrf'' (2 / 5) (3 / 5) sampleBm25 sampleVector ! 2)
       \<le> fe_fusedScore (rerankFusion ''rrf'' (2 / 5) (3 / 5) sampleBm25 sampleVector ! 0)"
proof -
  let ?R = "rerankFusion ''rrf'' (2 / 5) (3 / 5) sampleBm25 sampleVector"
  have h1: "distinct (map sdoc_id sampleBm25)" by (simp add: sampleBm25_def)
  have h2: "distinct (map sdoc_id sampleVector)" by (simp add: sampleVector_def)
  have len: "length ?R = 3" by code_simp
  have a: "?R ! 0 \<in> set ?R" and b: "?R ! 2 \<in> set ?R" using len by simp_all
  have ia: "re_id (fe_entry (?R ! 0)) = ''b''" and ib: "re_id (fe_entry (?R ! 2)) = ''c''"
    by code_simp+
  have o1: "outranks (rankIn (map sdoc_id sampleBm25) ''b'') (rankIn (map sdoc_id sampleBm25) ''c'')"
    and o2: "outranks (rankIn (map sdoc_id sampleVector) ''b'') (rankIn (map sdoc_id sampleVector) ''c'')"
    by code_simp+
  from rrf_fusion_monotonic [OF h1 h2 a b o1[folded ia ib] o2[folded ia ib]]
  show ?thesis using h1 h2 ia ib o1 o2 by simp
qed

section \<open>Properties of the score normalizer\<close>

text \<open>
  Both endpoints take the minimum over the raw scores and 0, and the maximum over the raw
  scores and 1. The normalized score of a candidate therefore lies in the unit interval,
  but the bounds are not those of the candidate set: the maximum is at least 1 and the
  minimum at most 0, so they never coincide and the branch of \<^verbatim>\<open>normalizeBM25\<close> and
  \<^verbatim>\<open>normalizeVector\<close> that returns 1.0 is never taken.
\<close>

lemma mathMinWith_bounds: "mathMinWith xs d \<le> d \<and> (\<forall>x \<in> set xs. mathMinWith xs d \<le> x)"
  unfolding mathMinWith_def
proof (induction xs arbitrary: d)
  case Nil
  then show ?case by simp
next
  case (Cons a xs)
  from Cons.IH[of "min a d"] show ?case by (auto simp: min_le_iff_disj)
qed

lemma mathMaxWith_bounds: "d \<le> mathMaxWith xs d \<and> (\<forall>x \<in> set xs. x \<le> mathMaxWith xs d)"
  unfolding mathMaxWith_def
proof (induction xs arbitrary: d)
  case Nil
  then show ?case by simp
next
  case (Cons a xs)
  from Cons.IH[of "max a d"] show ?case by (auto simp: le_max_iff_disj)
qed

lemma degenerate_branch_unreachable: "mathMaxWith xs 1 \<noteq> mathMinWith ys 0"
proof -
  have "mathMinWith ys 0 \<le> 0" using mathMinWith_bounds[of ys 0] by simp
  moreover have "1 \<le> mathMaxWith xs 1" using mathMaxWith_bounds[of 1 xs] by simp
  ultimately show ?thesis by linarith
qed

lemma rerank_normalized_in_unit_interval:
  assumes "s \<in> set scores"
  shows "0 \<le> normalizeBM25 s (mathMinWith scores 0) (mathMaxWith scores 1)
       \<and> normalizeBM25 s (mathMinWith scores 0) (mathMaxWith scores 1) \<le> 1
       \<and> normalizeVector s (mathMinWith scores 0) (mathMaxWith scores 1)
           = normalizeBM25 s (mathMinWith scores 0) (mathMaxWith scores 1)"
proof -
  let ?mn = "mathMinWith scores 0" and ?mx = "mathMaxWith scores 1"
  have a: "?mn \<le> s" using mathMinWith_bounds[of scores 0] assms by simp
  have b: "s \<le> ?mx" using mathMaxWith_bounds[of 1 scores] assms by simp
  have c: "?mn \<le> 0" using mathMinWith_bounds[of scores 0] by simp
  have d: "1 \<le> ?mx" using mathMaxWith_bounds[of 1 scores] by simp
  have pos: "0 < ?mx - ?mn" using c d by linarith
  have "0 \<le> (s - ?mn) / (?mx - ?mn)" using a pos by simp
  moreover have "(s - ?mn) / (?mx - ?mn) \<le> 1" using b pos by simp
  ultimately show ?thesis using pos by (simp add: normalizeBM25_def normalizeVector_def)
qed

text \<open>
  C1, as the specification states it, fails: for a candidate set whose two raw scores
  are both 0.5 the minimum and the maximum of the set coincide, and yet both endpoints
  normalize each score to 0.5, for the lexical and for the vector method alike.
\<close>

theorem equal_scores_not_normalized_to_one:
  "map sdoc_score equalScoreDocs = [1 / 2, 1 / 2]
   \<and> map (re_bm25Normalized \<circ> snd) (buildResultMap equalScoreDocs []) = [1 / 2, 1 / 2]
   \<and> map (re_vectorNormalized \<circ> snd) (buildResultMap [] equalScoreDocs) = [1 / 2, 1 / 2]
   \<and> map he_bm25ScoreNormalized (hybridCombine False (1 / 2) (1 / 2) equalScoreDocs []) = [1 / 2, 1 / 2]
   \<and> map he_vectorScoreNormalized (hybridCombine False (1 / 2) (1 / 2) [] equalScoreDocs) = [1 / 2, 1 / 2]"
  by code_simp

lemma set_update_subset: "set (AList.update k v m) \<subseteq> insert (k, v) (set m)"
  by (induction m) auto

lemma mathMinWith_Min: "mathMinWith xs d = Min (insert d (set xs))"
  unfolding mathMinWith_def
proof (induction xs arbitrary: d)
  case Nil
  then show ?case by simp
next
  case (Cons a xs)
  have "Min (insert (min a d) (set xs)) = Min (insert d (insert a (set xs)))"
    by (cases "set xs = {}") (simp_all add: min.commute min.left_commute)
  with Cons.IH[of "min a d"] show ?case by simp
qed

lemma mathMaxWith_Max: "mathMaxWith xs d = Max (insert d (set xs))"
  unfolding mathMaxWith_def
proof (induction xs arbitrary: d)
  case Nil
  then show ?case by simp
next
  case (Cons a xs)
  have "Max (insert (max a d) (set xs)) = Max (insert d (insert a (set xs)))"
    by (cases "set xs = {}") (simp_all add: max.commute max.left_commute)
  with Cons.IH[of "max a d"] show ?case by simp
qed

lemma anchored_absent: "anchoredNormalization scores 0 0"
  by (simp add: anchoredNormalization_def)

lemma anchored_present:
  assumes "s \<in> set scores"
  shows "anchoredNormalization scores s (normalizeBM25 s (mathMinWith scores 0) (mathMaxWith scores 1))"
    and "anchoredNormalization scores s (normalizeVector s (mathMinWith scores 0) (mathMaxWith scores 1))"
    and "anchoredNormalization scores s
           ((s - mathMinWith scores 0) / orOne (mathMaxWith scores 1 - mathMinWith scores 0))"
proof -
  note u = rerank_normalized_in_unit_interval[OF assms]
  have ne: "mathMaxWith scores 1 \<noteq> mathMinWith scores 0" by (rule degenerate_branch_unreachable)
  then have o: "orOne (mathMaxWith scores 1 - mathMinWith scores 0) = mathMaxWith scores 1 - mathMinWith scores 0"
    by (simp add: orOne_def)
  have f: "normalizeBM25 s (mathMinWith scores 0) (mathMaxWith scores 1)
             = (s - mathMinWith scores 0) / (mathMaxWith scores 1 - mathMinWith scores 0)"
    using ne by (simp add: normalizeBM25_def)
  show "anchoredNormalization scores s (normalizeBM25 s (mathMinWith scores 0) (mathMaxWith scores 1))"
    using u f assms by (simp add: anchoredNormalization_def)
  then show "anchoredNormalization scores s (normalizeVector s (mathMinWith scores 0) (mathMaxWith scores 1))"
    using u by simp
  show "anchoredNormalization scores s
           ((s - mathMinWith scores 0) / orOne (mathMaxWith scores 1 - mathMinWith scores 0))"
    unfolding o using u f assms by (simp add: anchoredNormalization_def)
qed

lemma processBM25_anchored:
  assumes "\<forall>p \<in> set m. anchoredNormalization sb (re_bm25Score (snd p)) (re_bm25Normalized (snd p))
                       \<and> anchoredNormalization sv (re_vectorScore (snd p)) (re_vectorNormalized (snd p))"
    and "set (map sdoc_score docs) \<subseteq> set sb"
  shows "\<forall>p \<in> set (processBM25 (mathMinWith sb 0) (mathMaxWith sb 1) i docs m).
            anchoredNormalization sb (re_bm25Score (snd p)) (re_bm25Normalized (snd p))
          \<and> anchoredNormalization sv (re_vectorScore (snd p)) (re_vectorNormalized (snd p))"
  using assms
proof (induction docs arbitrary: i m)
  case Nil
  then show ?case by simp
next
  case (Cons d docs)
  let ?e = "\<lparr>re_id = sdoc_id d, re_fields = sdoc_fields d,
           re_bm25Score = sdoc_score d,
           re_bm25Normalized = normalizeBM25 (sdoc_score d) (mathMinWith sb 0) (mathMaxWith sb 1),
           re_bm25Rank = Some (i + 1),
           re_vectorScore = 0, re_vectorNormalized = 0, re_vectorRank = None,
           re_foundIn = ''bm25''\<rparr>"
  have d: "sdoc_score d \<in> set sb" using Cons.prems(2) by simp
  have new: "anchoredNormalization sb (re_bm25Score ?e) (re_bm25Normalized ?e)
           \<and> anchoredNormalization sv (re_vectorScore ?e) (re_vectorNormalized ?e)"
    using anchored_present(1)[OF d] anchored_absent by simp
  have inv: "\<forall>p \<in> set (AList.update (sdoc_id d) ?e m).
               anchoredNormalization sb (re_bm25Score (snd p)) (re_bm25Normalized (snd p))
             \<and> anchoredNormalization sv (re_vectorScore (snd p)) (re_vectorNormalized (snd p))"
  proof
    fix p assume "p \<in> set (AList.update (sdoc_id d) ?e m)"
    then have "p = (sdoc_id d, ?e) \<or> p \<in> set m" using set_update_subset by fastforce
    then show "anchoredNormalization sb (re_bm25Score (snd p)) (re_bm25Normalized (snd p))
             \<and> anchoredNormalization sv (re_vectorScore (snd p)) (re_vectorNormalized (snd p))"
      using new Cons.prems(1) by auto
  qed
  have rest: "set (map sdoc_score docs) \<subseteq> set sb" using Cons.prems(2) by simp
  from Cons.IH[OF inv rest, of "Suc i"] show ?case by simp
qed

lemma processVector_anchored:
  assumes "\<forall>p \<in> set m. anchoredNormalization sb (re_bm25Score (snd p)) (re_bm25Normalized (snd p))
                       \<and> anchoredNormalization sv (re_vectorScore (snd p)) (re_vectorNormalized (snd p))"
    and "set (map sdoc_score docs) \<subseteq> set sv"
  shows "\<forall>p \<in> set (processVector (mathMinWith sv 0) (mathMaxWith sv 1) i docs m).
            anchoredNormalization sb (re_bm25Score (snd p)) (re_bm25Normalized (snd p))
          \<and> anchoredNormalization sv (re_vectorScore (snd p)) (re_vectorNormalized (snd p))"
  using assms
proof (induction docs arbitrary: i m)
  case Nil
  then show ?case by simp
next
  case (Cons d docs)
  define ns where "ns = normalizeVector (sdoc_score d) (mathMinWith sv 0) (mathMaxWith sv 1)"
  define e where "e = (case map_of m (sdoc_id d) of
             Some existing \<Rightarrow>
               existing\<lparr>re_vectorScore := sdoc_score d, re_vectorNormalized := ns,
                         re_vectorRank := Some (i + 1), re_foundIn := ''both''\<rparr>
           | None \<Rightarrow>
               \<lparr>re_id = sdoc_id d, re_fields = sdoc_fields d,
                  re_bm25Score = 0, re_bm25Normalized = 0, re_bm25Rank = None,
                  re_vectorScore = sdoc_score d, re_vectorNormalized = ns,
                  re_vectorRank = Some (i + 1), re_foundIn = ''vector''\<rparr>)"
  have step: "processVector (mathMinWith sv 0) (mathMaxWith sv 1) i (d # docs) m =
              processVector (mathMinWith sv 0) (mathMaxWith sv 1) (Suc i) docs (AList.update (sdoc_id d) e m)"
    by (simp add: e_def ns_def Let_def split: option.splits)
  have d: "sdoc_score d \<in> set sv" using Cons.prems(2) by simp
  have v: "anchoredNormalization sv (sdoc_score d) ns"
    unfolding ns_def by (rule anchored_present(2)[OF d])
  have new: "anchoredNormalization sb (re_bm25Score e) (re_bm25Normalized e)
           \<and> anchoredNormalization sv (re_vectorScore e) (re_vectorNormalized e)"
  proof (cases "map_of m (sdoc_id d)")
    case None
    then show ?thesis using v anchored_absent by (simp add: e_def)
  next
    case (Some existing)
    then have "(sdoc_id d, existing) \<in> set m" by (rule map_of_SomeD)
    with Cons.prems(1) have "anchoredNormalization sb (re_bm25Score existing) (re_bm25Normalized existing)"
      by fastforce
    then show ?thesis using v Some by (simp add: e_def)
  qed
  have inv: "\<forall>p \<in> set (AList.update (sdoc_id d) e m).
               anchoredNormalization sb (re_bm25Score (snd p)) (re_bm25Normalized (snd p))
             \<and> anchoredNormalization sv (re_vectorScore (snd p)) (re_vectorNormalized (snd p))"
  proof
    fix p assume "p \<in> set (AList.update (sdoc_id d) e m)"
    then have "p = (sdoc_id d, e) \<or> p \<in> set m" using set_update_subset by fastforce
    then show "anchoredNormalization sb (re_bm25Score (snd p)) (re_bm25Normalized (snd p))
             \<and> anchoredNormalization sv (re_vectorScore (snd p)) (re_vectorNormalized (snd p))"
      using new Cons.prems(1) by auto
  qed
  have rest: "set (map sdoc_score docs) \<subseteq> set sv" using Cons.prems(2) by simp
  from Cons.IH[OF inv rest, of "Suc i"] show ?case unfolding step .
qed

lemma hybridAddBm25_anchored:
  assumes "\<forall>p \<in> set m. anchoredNormalization sb (he_bm25Score (snd p)) (he_bm25ScoreNormalized (snd p))
                       \<and> anchoredNormalization sv (he_vectorScore (snd p)) (he_vectorScoreNormalized (snd p))"
    and "set (map sdoc_score docs) \<subseteq> set sb"
  shows "\<forall>p \<in> set (hybridAddBm25 (mathMinWith sb 0) (orOne (mathMaxWith sb 1 - mathMinWith sb 0)) w docs m).
            anchoredNormalization sb (he_bm25Score (snd p)) (he_bm25ScoreNormalized (snd p))
          \<and> anchoredNormalization sv (he_vectorScore (snd p)) (he_vectorScoreNormalized (snd p))"
  using assms
proof (induction docs arbitrary: m)
  case Nil
  then show ?case by simp
next
  case (Cons d docs)
  define ns where "ns = (sdoc_score d - mathMinWith sb 0) / orOne (mathMaxWith sb 1 - mathMinWith sb 0)"
  let ?e = "\<lparr>he_id = sdoc_id d, he_fields = sdoc_fields d,
              he_bm25Score = sdoc_score d, he_bm25ScoreNormalized = ns,
              he_vectorScore = 0, he_vectorScoreNormalized = 0,
              he_hybridScore = ns * w, he_foundIn = ''bm25''\<rparr>"
  have step: "hybridAddBm25 (mathMinWith sb 0) (orOne (mathMaxWith sb 1 - mathMinWith sb 0)) w (d # docs) m =
              hybridAddBm25 (mathMinWith sb 0) (orOne (mathMaxWith sb 1 - mathMinWith sb 0)) w docs
                (AList.update (sdoc_id d) ?e m)"
    by (simp add: ns_def Let_def)
  have d: "sdoc_score d \<in> set sb" using Cons.prems(2) by simp
  have new: "anchoredNormalization sb (he_bm25Score ?e) (he_bm25ScoreNormalized ?e)
           \<and> anchoredNormalization sv (he_vectorScore ?e) (he_vectorScoreNormalized ?e)"
    using anchored_present(3)[OF d] anchored_absent by (simp add: ns_def)
  have inv: "\<forall>p \<in> set (AList.update (sdoc_id d) ?e m).
               anchoredNormalization sb (he_bm25Score (snd p)) (he_bm25ScoreNormalized (snd p))
             \<and> anchoredNormalization sv (he_vectorScore (snd p)) (he_vectorScoreNormalized (snd p))"
  proof
    fix p assume "p \<in> set (AList.update (sdoc_id d) ?e m)"
    then have "p = (sdoc_id d, ?e) \<or> p \<in> set m" using set_update_subset by fastforce
    then show "anchoredNormalization sb (he_bm25Score (snd p)) (he_bm25ScoreNormalized (snd p))
             \<and> anchoredNormalization sv (he_vectorScore (snd p)) (he_vectorScoreNormalized (snd p))"
      using new Cons.prems(1) by auto
  qed
  have rest: "set (map sdoc_score docs) \<subseteq> set sb" using Cons.prems(2) by simp
  from Cons.IH[OF inv rest] show ?case unfolding step .
qed

lemma hybridMergeVector_anchored:
  assumes "\<forall>p \<in> set m. anchoredNormalization sb (he_bm25Score (snd p)) (he_bm25ScoreNormalized (snd p))
                       \<and> anchoredNormalization sv (he_vectorScore (snd p)) (he_vectorScoreNormalized (snd p))"
    and "set (map sdoc_score docs) \<subseteq> set sv"
  shows "\<forall>p \<in> set (hybridMergeVector skip (mathMinWith sv 0) (orOne (mathMaxWith sv 1 - mathMinWith sv 0)) w docs m).
            anchoredNormalization sb (he_bm25Score (snd p)) (he_bm25ScoreNormalized (snd p))
          \<and> anchoredNormalization sv (he_vectorScore (snd p)) (he_vectorScoreNormalized (snd p))"
  using assms
proof (induction docs arbitrary: m)
  case Nil
  then show ?case by simp
next
  case (Cons d docs)
  define ns where "ns = (sdoc_score d - mathMinWith sv 0) / orOne (mathMaxWith sv 1 - mathMinWith sv 0)"
  define e where "e = (case map_of m (sdoc_id d) of
             Some existing \<Rightarrow>
               existing\<lparr>he_vectorScore := sdoc_score d, he_vectorScoreNormalized := ns,
                         he_hybridScore := he_hybridScore existing + ns * w,
                         he_foundIn := ''both''\<rparr>
           | None \<Rightarrow>
               \<lparr>he_id = sdoc_id d, he_fields = sdoc_fields d,
                  he_bm25Score = 0, he_bm25ScoreNormalized = 0,
                  he_vectorScore = sdoc_score d, he_vectorScoreNormalized = ns,
                  he_hybridScore = (if skip then ns else ns * w),
                  he_foundIn = (if skip then ''vector-only'' else ''vector'')\<rparr>)"
  have step: "hybridMergeVector skip (mathMinWith sv 0) (orOne (mathMaxWith sv 1 - mathMinWith sv 0)) w (d # docs) m =
              hybridMergeVector skip (mathMinWith sv 0) (orOne (mathMaxWith sv 1 - mathMinWith sv 0)) w docs
                (AList.update (sdoc_id d) e m)"
    by (simp add: e_def ns_def Let_def split: option.splits)
  have d: "sdoc_score d \<in> set sv" using Cons.prems(2) by simp
  have v: "anchoredNormalization sv (sdoc_score d) ns"
    unfolding ns_def by (rule anchored_present(3)[OF d])
  have new: "anchoredNormalization sb (he_bm25Score e) (he_bm25ScoreNormalized e)
           \<and> anchoredNormalization sv (he_vectorScore e) (he_vectorScoreNormalized e)"
  proof (cases "map_of m (sdoc_id d)")
    case None
    then show ?thesis using v anchored_absent by (simp add: e_def)
  next
    case (Some existing)
    then have "(sdoc_id d, existing) \<in> set m" by (rule map_of_SomeD)
    with Cons.prems(1) have "anchoredNormalization sb (he_bm25Score existing) (he_bm25ScoreNormalized existing)"
      by fastforce
    then show ?thesis using v Some by (simp add: e_def)
  qed
  have inv: "\<forall>p \<in> set (AList.update (sdoc_id d) e m).
               anchoredNormalization sb (he_bm25Score (snd p)) (he_bm25ScoreNormalized (snd p))
             \<and> anchoredNormalization sv (he_vectorScore (snd p)) (he_vectorScoreNormalized (snd p))"
  proof
    fix p assume "p \<in> set (AList.update (sdoc_id d) e m)"
    then have "p = (sdoc_id d, e) \<or> p \<in> set m" using set_update_subset by fastforce
    then show "anchoredNormalization sb (he_bm25Score (snd p)) (he_bm25ScoreNormalized (snd p))
             \<and> anchoredNormalization sv (he_vectorScore (snd p)) (he_vectorScoreNormalized (snd p))"
      using new Cons.prems(1) by auto
  qed
  have rest: "set (map sdoc_score docs) \<subseteq> set sv" using Cons.prems(2) by simp
  from Cons.IH[OF inv rest] show ?case unfolding step .
qed

lemma equal_scores_normalized:
  assumes "scores \<noteq> []" and "\<forall>x \<in> set scores. x = s"
  shows "(s - mathMinWith scores 0) / (mathMaxWith scores 1 - mathMinWith scores 0)
           = (if 1 \<le> s then 1 else if s \<le> 0 then 0 else s)"
proof -
  from assms have st: "set scores = {s}" by (cases scores) auto
  have lo: "mathMinWith scores 0 = min 0 s" by (simp add: mathMinWith_Min st)
  have hi: "mathMaxWith scores 1 = max 1 s" by (simp add: mathMaxWith_Max st)
  show ?thesis unfolding lo hi by (auto simp: min_def max_def)
qed

text \<open>
  C1, amended. For every query, each method's normalized score of every candidate lies
  in the unit interval, in the rerank endpoint and in the hybrid endpoint: it is 0 (with
  raw score 0) for a candidate the method did not return, and otherwise
  \<open>(raw - lo) / (hi - lo)\<close>, where \<open>lo\<close> is the minimum of 0 and that method's raw scores for
  that query and \<open>hi\<close> the maximum of 1 and those raw scores. Always \<open>lo < hi\<close>, so there is
  no degenerate case and no division by zero. When all raw scores of the method are equal
  to \<open>s\<close>, every candidate gets the same normalized score: 1 when \<open>s \<ge> 1\<close>, 0 when
  \<open>s \<le> 0\<close>, and \<open>s\<close> itself in between.
\<close>

theorem normalized_scores_anchored:
  "(\<forall>p \<in> set (buildResultMap bm25Results vectorResults).
       anchoredNormalization (map sdoc_score bm25Results)
         (re_bm25Score (snd p)) (re_bm25Normalized (snd p))
     \<and> anchoredNormalization (map sdoc_score vectorResults)
         (re_vectorScore (snd p)) (re_vectorNormalized (snd p)))
   \<and> (\<forall>e \<in> set (hybridCombine skipBM25 bm25Weight vectorWeight bm25Results vectorResults).
       anchoredNormalization (map sdoc_score bm25Results)
         (he_bm25Score e) (he_bm25ScoreNormalized e)
     \<and> anchoredNormalization (map sdoc_score vectorResults)
         (he_vectorScore e) (he_vectorScoreNormalized e))
   \<and> mathMinWith scores 0 = Min (insert 0 (set scores))
   \<and> mathMaxWith scores 1 = Max (insert 1 (set scores))
   \<and> mathMinWith scores 0 < mathMaxWith scores 1
   \<and> (scores \<noteq> [] \<and> (\<forall>x \<in> set scores. x = s) \<longrightarrow>
        (s - mathMinWith scores 0) / (mathMaxWith scores 1 - mathMinWith scores 0)
          = (if 1 \<le> s then 1 else if s \<le> 0 then 0 else s))"
proof -
  let ?sb = "map sdoc_score bm25Results" and ?sv = "map sdoc_score vectorResults"
  have empty: "\<forall>p \<in> set ([] :: (string \<times> RerankEntry) list).
       anchoredNormalization ?sb (re_bm25Score (snd p)) (re_bm25Normalized (snd p))
     \<and> anchoredNormalization ?sv (re_vectorScore (snd p)) (re_vectorNormalized (snd p))"
    by simp
  have r: "\<forall>p \<in> set (buildResultMap bm25Results vectorResults).
       anchoredNormalization ?sb (re_bm25Score (snd p)) (re_bm25Normalized (snd p))
     \<and> anchoredNormalization ?sv (re_vectorScore (snd p)) (re_vectorNormalized (snd p))"
    unfolding buildResultMap_def Let_def
    by (rule processVector_anchored[OF processBM25_anchored[OF empty]]) simp_all
  have emptyH: "\<forall>p \<in> set ([] :: (string \<times> HybridEntry) list).
       anchoredNormalization ?sb (he_bm25Score (snd p)) (he_bm25ScoreNormalized (snd p))
     \<and> anchoredNormalization ?sv (he_vectorScore (snd p)) (he_vectorScoreNormalized (snd p))"
    by simp
  have m0: "\<forall>p \<in> set (if \<not> skipBM25
                then hybridAddBm25 (mathMinWith ?sb 0) (orOne (mathMaxWith ?sb 1 - mathMinWith ?sb 0))
                       bm25Weight bm25Results []
                else []).
       anchoredNormalization ?sb (he_bm25Score (snd p)) (he_bm25ScoreNormalized (snd p))
     \<and> anchoredNormalization ?sv (he_vectorScore (snd p)) (he_vectorScoreNormalized (snd p))"
    using hybridAddBm25_anchored[OF emptyH, of bm25Results bm25Weight] by simp
  have guards: "(if 0 < length ?sb then mathMaxWith ?sb 1 else 1) = mathMaxWith ?sb 1"
    "(if 0 < length ?sb then mathMinWith ?sb 0 else 0) = mathMinWith ?sb 0"
    by (simp_all add: mathMaxWith_def mathMinWith_def)
  have h: "\<forall>e \<in> set (hybridCombine skipBM25 bm25Weight vectorWeight bm25Results vectorResults).
       anchoredNormalization ?sb (he_bm25Score e) (he_bm25ScoreNormalized e)
     \<and> anchoredNormalization ?sv (he_vectorScore e) (he_vectorScoreNormalized e)"
    unfolding hybridCombine_def Let_def guards
    using hybridMergeVector_anchored[OF m0, of vectorResults skipBM25 vectorWeight]
    by auto
  have lt: "mathMinWith scores 0 < mathMaxWith scores 1"
    using mathMinWith_bounds[of scores 0] mathMaxWith_bounds[of 1 scores] by simp
  show ?thesis
    using r h lt equal_scores_normalized[of scores s]
    by (simp add: mathMinWith_Min mathMaxWith_Max)
qed

theorem normalized_scores_anchored_witness:
  "map (\<lambda>p. (re_bm25Score (snd p), re_bm25Normalized (snd p),
              re_vectorScore (snd p), re_vectorNormalized (snd p)))
       (buildResultMap sampleBm25 sampleVector)
     = [(7 / 2, 1, 0, 0), (2, 4 / 7, 9 / 10, 9 / 10), (0, 0, 4 / 5, 4 / 5)]
   \<and> list_all (\<lambda>p. anchoredNormalization (map sdoc_score sampleBm25)
                      (re_bm25Score (snd p)) (re_bm25Normalized (snd p))
                  \<and> anchoredNormalization (map sdoc_score sampleVector)
                      (re_vectorScore (snd p)) (re_vectorNormalized (snd p)))
        (buildResultMap sampleBm25 sampleVector)
   \<and> mathMinWith [1 / 2, 1 / 2] 0 = 0 \<and> mathMaxWith [1 / 2, 1 / 2] 1 = 1
   \<and> (1 / 2 - mathMinWith [1 / 2, 1 / 2] 0)
        / (mathMaxWith [1 / 2, 1 / 2] 1 - mathMinWith [1 / 2, 1 / 2] 0) = 1 / 2"
proof -
  have v: "map (\<lambda>p. (re_bm25Score (snd p), re_bm25Normalized (snd p),
              re_vectorScore (snd p), re_vectorNormalized (snd p)))
       (buildResultMap sampleBm25 sampleVector)
     = [(7 / 2, 1, 0, 0), (2, 4 / 7, 9 / 10, 9 / 10), (0, 0, 4 / 5, 4 / 5)]"
    by code_simp
  have lo: "mathMinWith [1 / 2, 1 / 2] 0 = 0" and hi: "mathMaxWith [1 / 2, 1 / 2] 1 = 1"
    by (simp_all add: mathMinWith_def mathMaxWith_def)
  from normalized_scores_anchored [of sampleBm25 sampleVector False "1 / 2" "1 / 2" "[1 / 2, 1 / 2]" "1 / 2"]
  show ?thesis
    using v lo hi by (simp add: list_all_iff)
qed

section \<open>Properties of the hybrid search endpoint\<close>

lemma hybridMergeVector_skip_fresh:
  assumes "distinct (map sdoc_id docs)" and "set (map sdoc_id docs) \<inter> fst ` set m = {}"
  shows "hybridMergeVector True mn rg w docs m =
           m @ map (\<lambda>d. (sdoc_id d,
                  \<lparr>he_id = sdoc_id d, he_fields = sdoc_fields d,
                   he_bm25Score = 0, he_bm25ScoreNormalized = 0,
                   he_vectorScore = sdoc_score d,
                   he_vectorScoreNormalized = (sdoc_score d - mn) / rg,
                   he_hybridScore = (sdoc_score d - mn) / rg,
                   he_foundIn = ''vector-only''\<rparr>)) docs"
  using assms
proof (induction docs arbitrary: m)
  case Nil
  then show ?case by simp
next
  case (Cons d docs)
  let ?e = "\<lparr>he_id = sdoc_id d, he_fields = sdoc_fields d,
                   he_bm25Score = 0, he_bm25ScoreNormalized = 0,
                   he_vectorScore = sdoc_score d,
                   he_vectorScoreNormalized = (sdoc_score d - mn) / rg,
                   he_hybridScore = (sdoc_score d - mn) / rg,
                   he_foundIn = ''vector-only''\<rparr>"
  from Cons.prems(2) have fresh: "sdoc_id d \<notin> fst ` set m" by auto
  then have none: "map_of m (sdoc_id d) = None" by (simp add: map_of_eq_None_iff)
  have step: "hybridMergeVector True mn rg w (d # docs) m =
                hybridMergeVector True mn rg w docs (m @ [(sdoc_id d, ?e)])"
    by (simp add: none Let_def update_fresh_key[OF fresh])
  have dd: "distinct (map sdoc_id docs)" using Cons.prems(1) by simp
  have disj: "set (map sdoc_id docs) \<inter> fst ` set (m @ [(sdoc_id d, ?e)]) = {}"
    using Cons.prems by auto
  show ?case
    unfolding step Cons.IH[OF dd disj] by simp
qed

text \<open>
  C2, as the specification states it, fails for the default collection: a hybrid query
  with \<^verbatim>\<open>useUserStories\<close> unset against a store whose lexical index is missing while its
  vector index exists is answered with status 400 and the validation error.
\<close>

theorem hybrid_rejects_default_collection:
  "hq_query sampleRequest = ''login'' \<and> hq_useUserStories sampleRequest = False
   \<and> env_bm25Validation lexicalIndexMissing
        = Invalid ''Search index bm25_index not found for collection user_stories''
   \<and> env_vectorValidation lexicalIndexMissing = Valid
   \<and> hybridSearch sampleRequest lexicalIndexMissing
        = BadRequest ''Search index bm25_index not found for collection user_stories''"
  by (simp add: sampleRequest_def lexicalIndexMissing_def hybridSearch_def validationError_def)

text \<open>
  C2, amended. Let the lexical index validation fail while the vector index validation
  succeeds, and let the connection, the embedding call and the vector search succeed.
  When the request sets \<^verbatim>\<open>useUserStories\<close> the query is answered, not rejected: the
  response is marked \<^verbatim>\<open>searchType: 'vector-only'\<close> and \<^verbatim>\<open>bm25Skipped: true\<close>, every result
  comes from the vector list, is tagged \<^verbatim>\<open>'vector-only'\<close>, has lexical scores 0 and has
  its normalized vector score, unweighted, as hybrid score; the results are in descending
  order of that score and at most \<^verbatim>\<open>limit\<close> many. When the request does not set
  \<^verbatim>\<open>useUserStories\<close> the query is rejected with status 400 and the validation error.
\<close>

theorem hybrid_missing_lexical_index:
  assumes "hq_query req \<noteq> []" and "env_connect env = Returned ()"
    and "env_bm25Validation env = Invalid err" and "env_vectorValidation env = Valid"
    and "env_embedding env = Returned ()" and "env_vectorSearch env = Returned vectorResults"
    and "distinct (map sdoc_id vectorResults)"
  shows "(hq_useUserStories req \<longrightarrow>
            (\<exists>resp. hybridSearch req env = Ok resp
               \<and> hr_searchType resp = ''vector-only'' \<and> hr_bm25Skipped resp
               \<and> (\<forall>e \<in> set (hr_results resp).
                     he_foundIn e = ''vector-only''
                   \<and> he_id e \<in> set (map sdoc_id vectorResults)
                   \<and> he_bm25Score e = 0 \<and> he_bm25ScoreNormalized e = 0
                   \<and> he_hybridScore e = he_vectorScoreNormalized e)
               \<and> sorted (map (\<lambda>e. - he_hybridScore e) (hr_results resp))
               \<and> length (hr_results resp) \<le> hq_limit req))
       \<and> (\<not> hq_useUserStories req \<longrightarrow> hybridSearch req env = BadRequest err)"
proof (intro conjI impI)
  assume nus: "\<not> hq_useUserStories req"
  show "hybridSearch req env = BadRequest err"
    using assms(1,2,3) nus by (simp add: hybridSearch_def validationError_def)
next
  assume us: "hq_useUserStories req"
  define mn where "mn = mathMinWith (map sdoc_score vectorResults) 0"
  define rg where "rg = orOne (mathMaxWith (map sdoc_score vectorResults) 1 - mn)"
  define entry where "entry = (\<lambda>d::StoreDoc. \<lparr>he_id = sdoc_id d, he_fields = sdoc_fields d,
                   he_bm25Score = 0, he_bm25ScoreNormalized = 0,
                   he_vectorScore = sdoc_score d,
                   he_vectorScoreNormalized = (sdoc_score d - mn) / rg,
                   he_hybridScore = (sdoc_score d - mn) / rg,
                   he_foundIn = ''vector-only''\<rparr>)"
  define combined where "combined = hybridCombine True (hq_bm25Weight req) (hq_vectorWeight req) [] vectorResults"
  define filtered where "filtered = (if length (hq_filters req) > 0
                                         then filter (matchesFilters (hq_filters req)) combined
                                         else combined)"
  define final where "final = take (hq_limit req) filtered"
  have m: "hybridMergeVector True mn rg (hq_vectorWeight req) vectorResults [] =
             map (\<lambda>d. (sdoc_id d, entry d)) vectorResults"
    using hybridMergeVector_skip_fresh[OF assms(7), of "[]" mn rg "hq_vectorWeight req"]
    by (simp add: entry_def)
  have comb: "combined = sort_key (\<lambda>e. - he_hybridScore e) (map entry vectorResults)"
    by (simp add: combined_def hybridCombine_def Let_def m mn_def[symmetric] rg_def[symmetric] comp_def)
  have sub1: "set filtered \<subseteq> set combined" by (auto simp: filtered_def)
  have sub2: "set final \<subseteq> set filtered" unfolding final_def by (rule set_take_subset)
  have setc: "set combined = entry ` set vectorResults" by (simp add: comb)
  have props: "\<forall>e \<in> set final. he_foundIn e = ''vector-only''
                   \<and> he_id e \<in> set (map sdoc_id vectorResults)
                   \<and> he_bm25Score e = 0 \<and> he_bm25ScoreNormalized e = 0
                   \<and> he_hybridScore e = he_vectorScoreNormalized e"
    using sub1 sub2 setc by (auto simp: entry_def)
  have s0: "sorted (map (\<lambda>e. - he_hybridScore e) combined)"
    unfolding comb by (rule sorted_sort_key)
  have s1: "sorted (map (\<lambda>e. - he_hybridScore e) filtered)"
    using s0 by (simp add: filtered_def sorted_filter)
  have s2: "sorted (map (\<lambda>e. - he_hybridScore e) final)"
    using s1 unfolding final_def sorted_map by simp
  have len: "length final \<le> hq_limit req" by (simp add: final_def)
  have resp: "hybridSearch req env =
      Ok \<lparr>hr_searchType = ''vector-only'', hr_results = final, hr_count = length final,
          hr_bm25Skipped = True,
          hr_foundInBoth = length (filter (\<lambda>r. he_foundIn r = ''both'') final),
          hr_foundInBm25Only = length (filter (\<lambda>r. he_foundIn r = ''bm25'') final),
          hr_foundInVectorOnly = length (filter (\<lambda>r. he_foundIn r = ''vector'') final)\<rparr>"
    using assms(1-6) us
    by (simp add: hybridSearch_def Let_def final_def filtered_def combined_def)
  show "\<exists>resp. hybridSearch req env = Ok resp
               \<and> hr_searchType resp = ''vector-only'' \<and> hr_bm25Skipped resp
               \<and> (\<forall>e \<in> set (hr_results resp).
                     he_foundIn e = ''vector-only''
                   \<and> he_id e \<in> set (map sdoc_id vectorResults)
                   \<and> he_bm25Score e = 0 \<and> he_bm25ScoreNormalized e = 0
                   \<and> he_hybridScore e = he_vectorScoreNormalized e)
               \<and> sorted (map (\<lambda>e. - he_hybridScore e) (hr_results resp))
               \<and> length (hr_results resp) \<le> hq_limit req"
    unfolding resp using props s2 len by simp
qed

theorem hybrid_missing_lexical_index_witness:
  "hq_query (sampleRequest\<lparr>hq_useUserStories := True\<rparr>) = ''login''
   \<and> hq_useUserStories (sampleRequest\<lparr>hq_useUserStories := True\<rparr>)
   \<and> env_connect lexicalIndexMissing = Returned ()
   \<and> env_bm25Validation lexicalIndexMissing
        = Invalid ''Search index bm25_index not found for collection user_stories''
   \<and> env_vectorValidation lexicalIndexMissing = Valid
   \<and> env_embedding lexicalIndexMissing = Returned ()
   \<and> env_vectorSearch lexicalIndexMissing = Returned sampleVector
   \<and> distinct (map sdoc_id sampleVector)
   \<and> (\<exists>resp. hybridSearch (sampleRequest\<lparr>hq_useUserStories := True\<rparr>) lexicalIndexMissing = Ok resp
         \<and> hr_searchType resp = ''vector-only'' \<and> hr_bm25Skipped resp
         \<and> map he_id (hr_results resp) = [''b'', ''c'']
         \<and> map he_foundIn (hr_results resp) = [''vector-only'', ''vector-only'']
         \<and> map he_hybridScore (hr_results resp) = [9 / 10, 4 / 5])"
proof -
  let ?req = "sampleRequest\<lparr>hq_useUserStories := True\<rparr>"
  have q: "hq_query ?req \<noteq> []" and q': "hq_query ?req = ''login''" and us: "hq_useUserStories ?req"
    by (simp_all add: sampleRequest_def)
  have c: "env_connect lexicalIndexMissing = Returned ()"
    and b: "env_bm25Validation lexicalIndexMissing
        = Invalid ''Search index bm25_index not found for collection user_stories''"
    and v: "env_vectorValidation lexicalIndexMissing = Valid"
    and e: "env_embedding lexicalIndexMissing = Returned ()"
    and s: "env_vectorSearch lexicalIndexMissing = Returned sampleVector"
    by (simp_all add: lexicalIndexMissing_def)
  have d: "distinct (map sdoc_id sampleVector)" by (simp add: sampleVector_def)
  have ev: "hybridSearch ?req lexicalIndexMissing =
     Ok \<lparr>hr_searchType = ''vector-only'',
       hr_results =
         [\<lparr>he_id = ''b'', he_fields = [(''title'', ''Logout'')],
             he_bm25Score = 0, he_bm25ScoreNormalized = 0,
             he_vectorScore = 9 / 10, he_vectorScoreNormalized = 9 / 10,
             he_hybridScore = 9 / 10, he_foundIn = ''vector-only''\<rparr>,
          \<lparr>he_id = ''c'', he_fields = [(''title'', ''Reset'')],
             he_bm25Score = 0, he_bm25ScoreNormalized = 0,
             he_vectorScore = 4 / 5, he_vectorScoreNormalized = 4 / 5,
             he_hybridScore = 4 / 5, he_foundIn = ''vector-only''\<rparr>],
       hr_count = 2, hr_bm25Skipped = True, hr_foundInBoth = 0,
       hr_foundInBm25Only = 0, hr_foundInVectorOnly = 0\<rparr>"
    by code_simp
  from hybrid_missing_lexical_index [OF q c b v e s d] us
  obtain resp where r: "hybridSearch ?req lexicalIndexMissing = Ok resp"
    "hr_searchType resp = ''vector-only''" "hr_bm25Skipped resp"
    by blast
  from r(1) ev have l: "map he_id (hr_results resp) = [''b'', ''c'']"
    "map he_foundIn (hr_results resp) = [''vector-only'', ''vector-only'']"
    "map he_hybridScore (hr_results resp) = [9 / 10, 4 / 5]"
    by auto
  have ex: "\<exists>resp. hybridSearch ?req lexicalIndexMissing = Ok resp
         \<and> hr_searchType resp = ''vector-only'' \<and> hr_bm25Skipped resp
         \<and> map he_id (hr_results resp) = [''b'', ''c'']
         \<and> map he_foundIn (hr_results resp) = [''vector-only'', ''vector-only'']
         \<and> map he_hybridScore (hr_results resp) = [9 / 10, 4 / 5]"
    by (rule exI[of _ resp]) (intro conjI r l)
  show ?thesis
    by (intro conjI q' us c b v e s d ex)
qed

end
